theory Spec2Isabelle
  imports Main
begin

section \<open>The derived-table operator of the query planner\<close>

text \<open>
  A shallow embedding of the \<^verbatim>\<open>Derived\<close> operator (package \<^verbatim>\<open>operators\<close>,
  \<^verbatim>\<open>src/unnamed/part_000\<close>).  Go's \<^verbatim>\<open>int\<close> is modelled by \<^typ>\<open>int\<close>: every
  integer handled here is either the sentinel \<open>-1\<close> or an index into a slice, far
  from the 64-bit bounds.  A Go function returning \<^verbatim>\<open>(v, error)\<close> returns a pair
  whose second component is an \<^typ>\<open>'a option\<close> (\<open>None\<close> for a nil error).  The
  methods \<^verbatim>\<open>AddPredicate\<close>, \<^verbatim>\<open>AddColumn\<close>, \<^verbatim>\<open>GetOrdering\<close>, \<^verbatim>\<open>getQP\<close>,
  \<^verbatim>\<open>setQP\<close> and \<^verbatim>\<open>SetInputs\<close> also return their receiver as the call leaves it;
  \<^verbatim>\<open>findOutputColumn\<close> and \<^verbatim>\<open>Clone\<close> only read theirs.  A panic is the result
  \<open>None\<close>.
\<close>

subsection \<open>Errors\<close>

text \<open>
  The error values the operator builds or compares against.  The constructors keep
  the names of the \<^verbatim>\<open>vterrors\<close> helpers used in the source; \<open>EOF\<close> is
  \<^verbatim>\<open>io.EOF\<close>, \<open>ErrNotSingleTable\<close> is \<^verbatim>\<open>semantics.ErrNotSingleTable\<close>, and
  \<open>OtherError\<close> stands for any error a collaborator may hand back.
\<close>

datatype error =
    VT12001 string
  | VT03014 string string
  | VT13001 string
  | ErrNotSingleTable
  | EOF
  | OtherError string

datatype error_kind = UnsupportedFeature | InvalidQuery | InternalInvariant | Collaborator

text \<open>
  Modelled from the spec: the package \<^verbatim>\<open>vterrors\<close> is not part of the sources at
  hand; section 7 of the specification names three kinds of error raised by this
  operator (unsupported feature, unknown column, internal invariant violation).
\<close>

fun kind_of :: "error \<Rightarrow> error_kind" where
  "kind_of (VT12001 _) = UnsupportedFeature"
| "kind_of (VT03014 _ _) = InvalidQuery"
| "kind_of (VT13001 _) = InternalInvariant"
| "kind_of _ = Collaborator"

subsection \<open>The parsed statement\<close>

text \<open>
  Modelled from the spec: the package \<^verbatim>\<open>sqlparser\<close> is not part of the sources at
  hand.  The statement tree is an immutable value; a select list is a sequence of
  items, each a named/aliased expression or a wildcard marker; a helper gives the
  first select of a possibly compound statement.  Only what the operator reads is
  kept: the name of a column reference, the alias of a select item, the kind of an
  expression node and its children.  \<open>MaxExpr\<close> and \<open>MinExpr\<close> are the nodes
  \<^verbatim>\<open>*sqlparser.Max\<close> and \<^verbatim>\<open>*sqlparser.Min\<close>; they and \<open>CountExpr\<close>,
  \<open>CountStar\<close>, \<open>SumExpr\<close>, \<open>AvgExpr\<close> implement the interface
  \<^verbatim>\<open>sqlparser.AggrFunc\<close>.
\<close>

datatype IdentifierCI = IdentifierCI (String_of: string)

definition IsEmpty :: "IdentifierCI \<Rightarrow> bool" where
  "IsEmpty i = (String_of i = [])"

record ColName =
  Name :: IdentifierCI
  Qualifier :: string

datatype Expr =
    ColNameExpr ColName
  | LiteralExpr string
  | MaxExpr Expr
  | MinExpr Expr
  | CountExpr "Expr list"
  | CountStar
  | SumExpr Expr
  | AvgExpr Expr
  | ComparisonExpr string Expr Expr
  | AndExpr Expr Expr
  | OrExpr Expr Expr
  | NotExpr Expr
  | FuncExpr string "Expr list"

datatype AliasedExpr = AliasedExpr (Expr_of: Expr) (As: IdentifierCI)

datatype SelectExpr =
    Aliased AliasedExpr
  | StarExpr
  | Nextval Expr

datatype SelectStatement =
    Select (SelectExprs: "SelectExpr list")
  | UnionStmt SelectStatement SelectStatement

text \<open>
  Modelled from the spec: \<^verbatim>\<open>sqlparser.GetFirstSelect\<close> is the helper that gives
  the first select of a possibly compound statement; what is read of it is its
  select list.
\<close>

fun GetFirstSelect :: "SelectStatement \<Rightarrow> SelectExpr list" where
  "GetFirstSelect (Select es) = es"
| "GetFirstSelect (UnionStmt l r) = GetFirstSelect l"

subsection \<open>Operators\<close>

text \<open>
  \<^verbatim>\<open>QueryProjection\<close> and \<^verbatim>\<open>ops.OrderBy\<close> are declared outside the sources at
  hand; the operator reads the field \<^verbatim>\<open>OrderExprs\<close> only, so the element type
  is left open.
\<close>

record 'ob QueryProjection =
  OrderExprs :: "'ob list"

type_synonym TableSet = nat

text \<open>
  The struct \<^verbatim>\<open>Derived\<close>, field by field.  The pointer \<^verbatim>\<open>QP\<close> is an option
  (\<open>None\<close> for nil).  The struct is a datatype with one constructor and the
  fields as selectors, and the type of the child is a parameter, so that the operator
  tree below can contain derived nodes.
\<close>

datatype ('op, 'ob) Derived =
  Derived (Source: 'op) (TableId: TableSet) (QP: "'ob QueryProjection option")
          (Query: SelectStatement) (Alias: string) (ColumnAliases: "IdentifierCI list")
          (Columns: "ColName list") (ColumnsOffset: "int list")

text \<open>
  The interface \<^verbatim>\<open>ops.Operator\<close>.  \<open>NilOp\<close> is the nil interface value;
  \<open>UnionOp\<close> and \<open>FilterOp\<close> are the variants the derived operator inspects or
  builds; \<open>OtherOp\<close> stands for the remaining variants of the family.
\<close>

datatype 'ob Operator =
    NilOp
  | DerivedOp "('ob Operator, 'ob) Derived"
  | UnionOp "'ob Operator list"
  | FilterOp (FSource: "'ob Operator") (Predicates: "Expr list")
  | OtherOp string "'ob Operator list"

fun isUnion :: "'ob Operator \<Rightarrow> bool" where
  "isUnion (UnionOp _) = True"
| "isUnion _ = False"

text \<open>Assignments to single fields of a derived node.\<close>

definition set_Source :: "'op \<Rightarrow> ('op, 'ob) Derived \<Rightarrow> ('op, 'ob) Derived" where
  "set_Source s d = Derived s (TableId d) (QP d) (Query d) (Alias d) (ColumnAliases d)
     (Columns d) (ColumnsOffset d)"

definition set_QP :: "'ob QueryProjection option \<Rightarrow> ('op, 'ob) Derived \<Rightarrow> ('op, 'ob) Derived" where
  "set_QP q d = Derived (Source d) (TableId d) q (Query d) (Alias d) (ColumnAliases d)
     (Columns d) (ColumnsOffset d)"

definition set_Columns :: "ColName list \<Rightarrow> ('op, 'ob) Derived \<Rightarrow> ('op, 'ob) Derived" where
  "set_Columns cs d = Derived (Source d) (TableId d) (QP d) (Query d) (Alias d)
     (ColumnAliases d) cs (ColumnsOffset d)"

definition set_ColumnsOffset :: "int list \<Rightarrow> ('op, 'ob) Derived \<Rightarrow> ('op, 'ob) Derived" where
  "set_ColumnsOffset os d = Derived (Source d) (TableId d) (QP d) (Query d) (Alias d)
     (ColumnAliases d) (Columns d) os"

subsection \<open>Collaborators\<close>

text \<open>
  Everything the operator calls but does not define is a field of one of two
  records, so that every theorem holds whatever the collaborators do.

  \<open>PlanningContext\<close> holds the two methods of \<^verbatim>\<open>ctx.SemTable\<close> that are called.

  \<open>externals\<close> holds the functions of other packages and the methods reached by
  dynamic dispatch on the child operator:
  \<^item> \<open>IdentEqual a b\<close> is \<^verbatim>\<open>a.Equal(b)\<close> on identifiers;
  \<^item> \<open>SQLString\<close> is \<^verbatim>\<open>sqlparser.String\<close> on an aliased select item;
  \<^item> \<open>NewColName\<close> is \<^verbatim>\<open>sqlparser.NewColName\<close> and \<open>aeWrap\<close> is the helper
    \<^verbatim>\<open>aeWrap\<close> of the package \<^verbatim>\<open>operators\<close>, defined in another file;
  \<^item> \<open>RewriteDerivedTableExpression\<close> is the function of package \<^verbatim>\<open>semantics\<close>;
  \<^item> \<open>CreateQPFromSelect\<close> builds the query projection of a select;
  \<^item> \<open>SourceAddPredicate\<close> and \<open>SourceAddColumn\<close> are \<^verbatim>\<open>AddPredicate\<close> and
    \<^verbatim>\<open>AddColumn\<close> of the child, whatever its variant; they return what the Go
    methods return, and \<open>SourceAddColumn\<close> returns first the child as the call
    leaves it (the derived node keeps pointing to it when the call fails).
\<close>

record 'ti PlanningContext =
  TableInfoForExpr :: "Expr \<Rightarrow> 'ti \<times> error option"
  EqualsExprWithDeps :: "Expr \<Rightarrow> Expr \<Rightarrow> bool"

record ('ti, 'ob) externals =
  IdentEqual :: "IdentifierCI \<Rightarrow> IdentifierCI \<Rightarrow> bool"
  SQLString :: "AliasedExpr \<Rightarrow> string"
  NewColName :: "string \<Rightarrow> ColName"
  aeWrap :: "Expr \<Rightarrow> AliasedExpr"
  RewriteDerivedTableExpression :: "Expr \<Rightarrow> 'ti \<Rightarrow> Expr"
  CreateQPFromSelect :: "'ti PlanningContext \<Rightarrow> SelectStatement \<Rightarrow> 'ob QueryProjection option \<times> error option"
  SourceAddPredicate :: "'ti PlanningContext \<Rightarrow> 'ob Operator \<Rightarrow> Expr \<Rightarrow> 'ob Operator \<times> error option"
  SourceAddColumn :: "'ti PlanningContext \<Rightarrow> 'ob Operator \<Rightarrow> AliasedExpr \<Rightarrow> bool \<Rightarrow> bool
      \<Rightarrow> 'ob Operator \<times> 'ob Operator \<times> int \<times> error option"

subsection \<open>Column resolution\<close>

text \<open>
  \<^verbatim>\<open>findOutputColumn\<close>: the loop over the select list of the first select, with
  the loop index \<open>j\<close> and the flag \<open>hasStar\<close> as arguments.
\<close>

fun findOutputColumn_loop ::
  "('ti, 'ob) externals \<Rightarrow> ColName \<Rightarrow> SelectExpr list \<Rightarrow> int \<Rightarrow> bool \<Rightarrow> int \<times> error option" where
  "findOutputColumn_loop ext name [] j hasStar =
     (if hasStar then (- 1, None)
      else (0, Some (VT03014 (String_of (Name name)) ''field list'')))"
| "findOutputColumn_loop ext name (exp # rest) j hasStar =
     (case exp of
        Aliased ae \<Rightarrow>
          if \<not> IsEmpty (As ae) \<and> IdentEqual ext (As ae) (Name name) then (j, None)
          else if IsEmpty (As ae) then
            (case Expr_of ae of
               ColNameExpr col \<Rightarrow>
                 if IdentEqual ext (Name name) (Name col) then (j, None)
                 else findOutputColumn_loop ext name rest (j + 1) hasStar
             | _ \<Rightarrow>
                 (0, Some (VT12001 (''complex expression needs column alias: '' @ SQLString ext ae))))
          else findOutputColumn_loop ext name rest (j + 1) hasStar
      | StarExpr \<Rightarrow> findOutputColumn_loop ext name rest (j + 1) True
      | Nextval _ \<Rightarrow> findOutputColumn_loop ext name rest (j + 1) hasStar)"

definition findOutputColumn ::
  "('ti, 'ob) externals \<Rightarrow> ('op, 'ob) Derived \<Rightarrow> ColName \<Rightarrow> int \<times> error option" where
  "findOutputColumn ext d name =
     findOutputColumn_loop ext name (GetFirstSelect (Query d)) 0 False"

subsection \<open>Walking an expression\<close>

text \<open>
  Modelled from the spec: \<^verbatim>\<open>sqlparser.Walk\<close> is not part of the sources at hand.
  It walks the expression tree: the visitor is called on a node before its
  children, the children follow from left to right, the walk of a node's children
  is skipped when the visitor answers \<^verbatim>\<open>kontinue = false\<close>, and the whole walk
  stops with the error as soon as the visitor returns one.  The visitor is a Go
  closure; the variables it captures and assigns are the state \<open>'s\<close>.
\<close>

fun children :: "Expr \<Rightarrow> Expr list" where
  "children (ColNameExpr _) = []"
| "children (LiteralExpr _) = []"
| "children (MaxExpr a) = [a]"
| "children (MinExpr a) = [a]"
| "children (CountExpr args) = args"
| "children CountStar = []"
| "children (SumExpr a) = [a]"
| "children (AvgExpr a) = [a]"
| "children (ComparisonExpr _ l r) = [l, r]"
| "children (AndExpr l r) = [l, r]"
| "children (OrExpr l r) = [l, r]"
| "children (NotExpr a) = [a]"
| "children (FuncExpr _ args) = args"

fun nodes :: "Expr \<Rightarrow> nat" where
  "nodes (ColNameExpr _) = 1"
| "nodes (LiteralExpr _) = 1"
| "nodes (MaxExpr a) = Suc (nodes a)"
| "nodes (MinExpr a) = Suc (nodes a)"
| "nodes (CountExpr args) = Suc (sum_list (map nodes args))"
| "nodes CountStar = 1"
| "nodes (SumExpr a) = Suc (nodes a)"
| "nodes (AvgExpr a) = Suc (nodes a)"
| "nodes (ComparisonExpr _ l r) = Suc (nodes l + nodes r)"
| "nodes (AndExpr l r) = Suc (nodes l + nodes r)"
| "nodes (OrExpr l r) = Suc (nodes l + nodes r)"
| "nodes (NotExpr a) = Suc (nodes a)"
| "nodes (FuncExpr _ args) = Suc (sum_list (map nodes args))"

lemma nodes_children: "nodes e = Suc (sum_list (map nodes (children e)))"
  by (cases e) simp_all

lemma nodes_child_less: "c \<in> set (children e) \<Longrightarrow> nodes c < nodes e"
proof -
  assume "c \<in> set (children e)"
  then have "nodes c \<le> sum_list (map nodes (children e))"
    by (simp add: member_le_sum_list)
  then show ?thesis
    by (simp add: nodes_children [of e])
qed

type_synonym 's Visit = "Expr \<Rightarrow> 's \<Rightarrow> (bool \<times> error option) \<times> 's"

function Walk :: "'s Visit \<Rightarrow> Expr \<Rightarrow> 's \<Rightarrow> error option \<times> 's"
  and WalkList :: "'s Visit \<Rightarrow> Expr list \<Rightarrow> 's \<Rightarrow> error option \<times> 's" where
  "Walk visit node s =
     (case visit node s of
        ((kontinue, err), s1) \<Rightarrow>
          if err \<noteq> None \<or> \<not> kontinue then (err, s1)
          else WalkList visit (children node) s1)"
| "WalkList visit [] s = (None, s)"
| "WalkList visit (node # rest) s =
     (case Walk visit node s of
        (Some err, s1) \<Rightarrow> (Some err, s1)
      | (None, s1) \<Rightarrow> WalkList visit rest s1)"
  by pat_completeness auto
termination
  by (relation "measure (\<lambda>x. case x of
          Inl (v, e, s) \<Rightarrow> 2 * nodes e
        | Inr (v, es, s) \<Rightarrow> 2 * sum_list (map nodes es) + 1)")
     (auto simp: nodes_children)

subsection \<open>Predicate pushdown\<close>

fun isAggrFunc :: "Expr \<Rightarrow> bool" where
  "isAggrFunc (MaxExpr _) = True"
| "isAggrFunc (MinExpr _) = True"
| "isAggrFunc (CountExpr _) = True"
| "isAggrFunc CountStar = True"
| "isAggrFunc (SumExpr _) = True"
| "isAggrFunc (AvgExpr _) = True"
| "isAggrFunc _ = False"

text \<open>
  The closure given to \<^verbatim>\<open>Walk\<close> in \<^verbatim>\<open>canBePushedDownIntoDerived\<close>; its state is
  the captured result variable \<^verbatim>\<open>canBePushed\<close>.  The type switch tries
  \<^verbatim>\<open>*sqlparser.Max, *sqlparser.Min\<close> before the interface \<^verbatim>\<open>sqlparser.AggrFunc\<close>.
\<close>

definition pushdown_visit :: "bool Visit" where
  "pushdown_visit node canBePushed =
     (case node of
        MaxExpr _ \<Rightarrow> ((True, None), canBePushed)
      | MinExpr _ \<Rightarrow> ((True, None), canBePushed)
      | _ \<Rightarrow> if isAggrFunc node then ((False, Some EOF), False)
             else ((True, None), canBePushed))"

definition canBePushedDownIntoDerived :: "Expr \<Rightarrow> bool" where
  "canBePushedDownIntoDerived expr = snd (Walk pushdown_visit expr True)"

text \<open>
  \<^verbatim>\<open>AddPredicate\<close> returns the receiver as the call leaves it, the operator
  returned and the error returned.  Where the Go code returns the pointer \<^verbatim>\<open>d\<close>,
  the operator returned is \<open>DerivedOp\<close> of the receiver as the call leaves it.
\<close>

definition AddPredicate ::
  "('ti, 'ob) externals \<Rightarrow> 'ti PlanningContext \<Rightarrow> ('ob Operator, 'ob) Derived \<Rightarrow> Expr
     \<Rightarrow> ('ob Operator, 'ob) Derived \<times> 'ob Operator \<times> error option" where
  "AddPredicate ext ctx d expr =
     (if isUnion (Source d) then
        (case SourceAddPredicate ext ctx (Source d) expr of
           (src, err) \<Rightarrow> (set_Source src d, DerivedOp (set_Source src d), err))
      else
        (case TableInfoForExpr ctx expr of
           (tableInfo, Some err) \<Rightarrow>
             if err = ErrNotSingleTable then (d, FilterOp (DerivedOp d) [expr], None)
             else (d, NilOp, Some err)
         | (tableInfo, None) \<Rightarrow>
             let newExpr = RewriteDerivedTableExpression ext expr tableInfo in
             if \<not> canBePushedDownIntoDerived newExpr
             then (d, FilterOp (DerivedOp d) [expr], None)
             else
               (case SourceAddPredicate ext ctx (Source d) newExpr of
                  (src, Some err) \<Rightarrow> (set_Source src d, NilOp, Some err)
                | (src, None) \<Rightarrow> (set_Source src d, DerivedOp (set_Source src d), None))))"

subsection \<open>Column pushdown\<close>

text \<open>\<^verbatim>\<open>canReuseColumn\<close>: the loop with its index; the named results start at \<open>(0, false)\<close>.\<close>

fun canReuseColumn_loop ::
  "'ti PlanningContext \<Rightarrow> 'a list \<Rightarrow> Expr \<Rightarrow> ('a \<Rightarrow> Expr) \<Rightarrow> int \<Rightarrow> int \<times> bool" where
  "canReuseColumn_loop ctx [] col f offset = (0, False)"
| "canReuseColumn_loop ctx (column # rest) col f offset =
     (if EqualsExprWithDeps ctx col (f column) then (offset, True)
      else canReuseColumn_loop ctx rest col f (offset + 1))"

definition canReuseColumn ::
  "'ti PlanningContext \<Rightarrow> 'a list \<Rightarrow> Expr \<Rightarrow> ('a \<Rightarrow> Expr) \<Rightarrow> int \<times> bool" where
  "canReuseColumn ctx columns col f = canReuseColumn_loop ctx columns col f 0"

text \<open>\<^verbatim>\<open>addToIntSlice\<close>: the search loop, then the append.\<close>

fun addToIntSlice_loop :: "int list \<Rightarrow> int \<Rightarrow> int \<Rightarrow> int option" where
  "addToIntSlice_loop [] valToAdd idx = None"
| "addToIntSlice_loop (val # rest) valToAdd idx =
     (if val = valToAdd then Some idx else addToIntSlice_loop rest valToAdd (idx + 1))"

definition addToIntSlice :: "int list \<Rightarrow> int \<Rightarrow> int list \<times> int" where
  "addToIntSlice columnOffset valToAdd =
     (case addToIntSlice_loop columnOffset valToAdd 0 of
        Some idx \<Rightarrow> (columnOffset, idx)
      | None \<Rightarrow> (columnOffset @ [valToAdd], int (length (columnOffset @ [valToAdd])) - 1))"

text \<open>
  \<^verbatim>\<open>AddColumn\<close> returns the receiver as the call leaves it, then the three results
  of the Go method.  The third parameter of the Go method is unnamed and unused.
\<close>

definition AddColumn ::
  "('ti, 'ob) externals \<Rightarrow> 'ti PlanningContext \<Rightarrow> ('ob Operator, 'ob) Derived \<Rightarrow> AliasedExpr
     \<Rightarrow> bool \<Rightarrow> bool
     \<Rightarrow> ('ob Operator, 'ob) Derived \<times> 'ob Operator \<times> int \<times> error option" where
  "AddColumn ext ctx d expr reuse addToGroupBy =
     (case Expr_of expr of
        ColNameExpr col \<Rightarrow>
          (case canReuseColumn ctx (Columns d) (ColNameExpr col) ColNameExpr of
             (offset, True) \<Rightarrow> (d, DerivedOp d, offset, None)
           | (offset, False) \<Rightarrow>
               (case findOutputColumn ext d col of
                  (i, Some err) \<Rightarrow> (d, NilOp, 0, Some err)
                | (i, None) \<Rightarrow>
                    (case addToIntSlice (ColumnsOffset d) i of
                       (offs, pos) \<Rightarrow>
                         let d1 = set_Columns (Columns d @ [col]) (set_ColumnsOffset offs d) in
                         if i \<le> - 1 then
                           (case SourceAddColumn ext ctx (Source d1)
                                   (aeWrap ext (ColNameExpr (NewColName ext (String_of (Name col)))))
                                   True addToGroupBy of
                              (src, newSrc, _, Some err) \<Rightarrow> (set_Source src d1, NilOp, 0, Some err)
                            | (src, newSrc, _, None) \<Rightarrow>
                                (set_Source newSrc d1, DerivedOp (set_Source newSrc d1), pos, None))
                         else (d1, DerivedOp d1, pos, None))))
      | _ \<Rightarrow>
          (d, NilOp, 0, Some (VT13001 ''cannot push non-colname expression to a derived table'')))"

subsection \<open>Ordering, query projection, children, cloning\<close>

definition GetOrdering ::
  "('op, 'ob) Derived \<Rightarrow> ('op, 'ob) Derived \<times> 'ob list \<times> error option" where
  "GetOrdering d =
     (case QP d of
        None \<Rightarrow> (d, [], Some (VT13001 ''QP should already be here''))
      | Some qp \<Rightarrow> (d, OrderExprs qp, None))"

text \<open>
  \<^verbatim>\<open>getQP\<close>: the type assertion \<^verbatim>\<open>d.Query.(*sqlparser.Select)\<close> has the
  one-result form, which panics on a statement that is not a plain select; the
  panic is the result \<open>None\<close>.
\<close>

definition getQP ::
  "('ti, 'ob) externals \<Rightarrow> 'ti PlanningContext \<Rightarrow> ('op, 'ob) Derived
     \<Rightarrow> (('op, 'ob) Derived \<times> 'ob QueryProjection option \<times> error option) option" where
  "getQP ext ctx d =
     (if QP d \<noteq> None then Some (d, QP d, None)
      else
        (case Query d of
           Select es \<Rightarrow>
             (case CreateQPFromSelect ext ctx (Select es) of
                (qp, Some err) \<Rightarrow> Some (d, None, Some err)
              | (qp, None) \<Rightarrow> Some (set_QP qp d, qp, None))
         | UnionStmt _ _ \<Rightarrow> None))"

definition setQP :: "('op, 'ob) Derived \<Rightarrow> 'ob QueryProjection option \<Rightarrow> ('op, 'ob) Derived" where
  "setQP d qp = set_QP qp d"

definition Inputs :: "('op, 'ob) Derived \<Rightarrow> 'op list" where
  "Inputs d = [Source d]"

text \<open>
  \<^verbatim>\<open>SetInputs\<close> and \<^verbatim>\<open>Clone\<close> read \<^verbatim>\<open>ops[0]\<close> and \<^verbatim>\<open>inputs[0]\<close>, which panics
  on an empty slice: the result \<open>None\<close>.
\<close>

definition SetInputs :: "('op, 'ob) Derived \<Rightarrow> 'op list \<Rightarrow> ('op, 'ob) Derived option" where
  "SetInputs d ops = (case ops of [] \<Rightarrow> None | s # _ \<Rightarrow> Some (set_Source s d))"

text \<open>
  Modelled from the spec: \<^verbatim>\<open>sqlparser.CloneColumns\<close> and \<^verbatim>\<open>slices.Clone\<close> are not
  part of the sources at hand.  Cloning copies the node-local containers; on the
  contents of a slice, the copy has the same elements.  The backing arrays are the
  subject of the next subsection.
\<close>

definition CloneColumns :: "IdentifierCI list \<Rightarrow> IdentifierCI list" where
  "CloneColumns cols = map (\<lambda>c. c) cols"

definition slices_Clone :: "'a list \<Rightarrow> 'a list" where
  "slices_Clone s = [] @ s"

text \<open>
  \<^verbatim>\<open>Clone\<close> on the contents of the slices.  The field \<^verbatim>\<open>QP\<close> is not named in
  the struct literal, so it is nil.
\<close>

definition Clone :: "('op, 'ob) Derived \<Rightarrow> 'op list \<Rightarrow> ('op, 'ob) Derived option" where
  "Clone d inputs =
     (case inputs of
        [] \<Rightarrow> None
      | s # _ \<Rightarrow>
          Some (Derived s (TableId d) None (Query d) (Alias d) (CloneColumns (ColumnAliases d))
                  (slices_Clone (Columns d)) (slices_Clone (ColumnsOffset d))))"

subsection \<open>Backing arrays of the slices\<close>

text \<open>
  A Go slice is a window on a backing array: the array, the start of the window,
  its length and its capacity.  The arrays of one element type live in a store; an
  address is a position in the store, and an allocation extends the store, so that
  a new array lies at an address that no slice holds.  Nothing is freed.
  \<open>NilSlice\<close> is the nil slice.  A slice is valid in a store if its window lies
  inside an array of the store; \<open>elems\<close> reads the elements of a slice.
\<close>

type_synonym 'a arrays = "'a list list"

datatype slice = NilSlice | Slice (base: nat) (start: nat) (len: nat) (cap: nat)

fun valid :: "'a arrays \<Rightarrow> slice \<Rightarrow> bool" where
  "valid h NilSlice = True"
| "valid h (Slice a st n c) = (a < length h \<and> n \<le> c \<and> st + c \<le> length (h ! a))"

fun elems :: "'a arrays \<Rightarrow> slice \<Rightarrow> 'a list" where
  "elems h NilSlice = []"
| "elems h (Slice a st n c) = take n (drop st (h ! a))"

text \<open>Two slices are apart if they do not lie on the same array.\<close>

fun apart :: "slice \<Rightarrow> slice \<Rightarrow> bool" where
  "apart (Slice a _ _ _) (Slice b _ _ _) = (a \<noteq> b)"
| "apart _ _ = True"

text \<open>
  A new array for the elements \<open>xs\<close>.  How much spare capacity the runtime adds
  to an allocation for \<open>n\<close> elements is its choice, the parameter \<open>extra\<close>;
  the spare slots hold the zero value \<open>z\<close> of the element type.
\<close>

definition make_slice :: "(nat \<Rightarrow> nat) \<Rightarrow> 'a \<Rightarrow> 'a arrays \<Rightarrow> 'a list \<Rightarrow> 'a arrays \<times> slice" where
  "make_slice extra z h xs =
     (h @ [xs @ replicate (extra (length xs)) z],
      Slice (length h) 0 (length xs) (length xs + extra (length xs)))"

text \<open>
  \<^verbatim>\<open>s = append(s, x)\<close> writes behind the window when the capacity allows and
  moves the elements to a new array otherwise; \<^verbatim>\<open>s[i] = x\<close> writes into the
  window and panics outside of it (the result \<open>None\<close>).
\<close>

definition append_slice ::
  "(nat \<Rightarrow> nat) \<Rightarrow> 'a \<Rightarrow> 'a arrays \<Rightarrow> slice \<Rightarrow> 'a \<Rightarrow> 'a arrays \<times> slice" where
  "append_slice extra z h s x =
     (case s of
        NilSlice \<Rightarrow> make_slice extra z h [x]
      | Slice a st n c \<Rightarrow>
          if n < c then (h[a := (h ! a)[st + n := x]], Slice a st (Suc n) c)
          else make_slice extra z h (elems h s @ [x]))"

definition store_slice :: "'a arrays \<Rightarrow> slice \<Rightarrow> nat \<Rightarrow> 'a \<Rightarrow> 'a arrays option" where
  "store_slice h s i x =
     (case s of
        NilSlice \<Rightarrow> None
      | Slice a st n c \<Rightarrow> if i < n then Some (h[a := (h ! a)[st + i := x]]) else None)"

text \<open>
  Modelled from the spec: \<^verbatim>\<open>slices.Clone\<close> and \<^verbatim>\<open>sqlparser.CloneColumns\<close> are
  not part of the sources at hand.  Cloning copies the node-local containers: a nil
  slice stays nil, any other slice is copied, element by element, into a new array.
\<close>

definition slices_Clone_mem ::
  "(nat \<Rightarrow> nat) \<Rightarrow> 'a \<Rightarrow> 'a arrays \<Rightarrow> slice \<Rightarrow> 'a arrays \<times> slice" where
  "slices_Clone_mem extra z h s =
     (case s of NilSlice \<Rightarrow> (h, NilSlice) | Slice _ _ _ _ \<Rightarrow> make_slice extra z h (elems h s))"

definition CloneColumns_mem ::
  "(nat \<Rightarrow> nat) \<Rightarrow> IdentifierCI arrays \<Rightarrow> slice \<Rightarrow> IdentifierCI arrays \<times> slice" where
  "CloneColumns_mem extra h s = slices_Clone_mem extra (IdentifierCI []) h s"

text \<open>
  The derived node with its three slices as slices, and the memory.
  \<^verbatim>\<open>ColumnAliases\<close> and \<^verbatim>\<open>ColumnsOffset\<close> hold their elements by value.
  \<^verbatim>\<open>Columns\<close> is a \<^verbatim>\<open>[]*sqlparser.ColName\<close>: its elements are pointers to column
  nodes.  The column nodes live in a store of their own, \<open>objects\<close>; a pointer
  is the position of a node in that store, or \<open>None\<close> for nil.  \<open>node_of\<close> reads
  a node out of the memory, the elements of \<^verbatim>\<open>Columns\<close> through their pointers;
  a nil pointer points to no node and reads as the zero value of \<^verbatim>\<open>ColName\<close>.
\<close>

type_synonym ptr = "nat option"

definition zeroCol :: ColName where
  "zeroCol = \<lparr>Name = IdentifierCI [], Qualifier = []\<rparr>"

definition deref :: "ColName list \<Rightarrow> ptr \<Rightarrow> ColName" where
  "deref objs p = (case p of None \<Rightarrow> zeroCol | Some a \<Rightarrow> objs ! a)"

datatype ('op, 'ob) Derived_mem =
  Derived_mem (mSource: 'op) (mTableId: TableSet) (mQP: "'ob QueryProjection option")
    (mQuery: SelectStatement) (mAlias: string) (mColumnAliases: slice)
    (mColumns: slice) (mColumnsOffset: slice)

record memory =
  idents :: "IdentifierCI arrays"
  colptrs :: "ptr arrays"
  objects :: "ColName list"
  ints :: "int arrays"

definition node_of :: "memory \<Rightarrow> ('op, 'ob) Derived_mem \<Rightarrow> ('op, 'ob) Derived" where
  "node_of m d =
     Derived (mSource d) (mTableId d) (mQP d) (mQuery d) (mAlias d)
       (elems (idents m) (mColumnAliases d))
       (map (deref (objects m)) (elems (colptrs m) (mColumns d)))
       (elems (ints m) (mColumnsOffset d))"

definition valid_node :: "memory \<Rightarrow> ('op, 'ob) Derived_mem \<Rightarrow> bool" where
  "valid_node m d =
     (valid (idents m) (mColumnAliases d) \<and> valid (colptrs m) (mColumns d)
      \<and> valid (ints m) (mColumnsOffset d))"

definition separate :: "('op, 'ob) Derived_mem \<Rightarrow> ('op, 'ob) Derived_mem \<Rightarrow> bool" where
  "separate d c =
     (apart (mColumnAliases d) (mColumnAliases c) \<and> apart (mColumns d) (mColumns c)
      \<and> apart (mColumnsOffset d) (mColumnsOffset c))"

text \<open>
  \<^verbatim>\<open>Clone\<close> on the memory.  The fields of the struct literal are evaluated in
  the order written: \<^verbatim>\<open>inputs[0]\<close> first, which panics on an empty slice, then
  the three copies.  The copy of \<^verbatim>\<open>Columns\<close> is a copy of the pointers; no column
  node is copied.
\<close>

definition Clone_mem ::
  "(nat \<Rightarrow> nat) \<Rightarrow> memory \<Rightarrow> ('op, 'ob) Derived_mem \<Rightarrow> 'op list
     \<Rightarrow> (memory \<times> ('op, 'ob) Derived_mem) option" where
  "Clone_mem extra m d inputs =
     (case inputs of
        [] \<Rightarrow> None
      | s # _ \<Rightarrow>
          (case CloneColumns_mem extra (idents m) (mColumnAliases d) of
             (ih, ca) \<Rightarrow>
               (case slices_Clone_mem extra None (colptrs m) (mColumns d) of
                  (ch, cs) \<Rightarrow>
                    (case slices_Clone_mem extra 0 (ints m) (mColumnsOffset d) of
                       (oh, os) \<Rightarrow>
                         Some (\<lparr>idents = ih, colptrs = ch, objects = objects m, ints = oh\<rparr>,
                               Derived_mem s (mTableId d) None (mQuery d) (mAlias d) ca cs os)))))"

text \<open>
  What can be done afterwards to the slices of a node: an append with assignment
  back to the field (as \<open>AddColumn\<close> does to \<^verbatim>\<open>Columns\<close> and
  \<^verbatim>\<open>ColumnsOffset\<close>), or an assignment to an element.  For \<^verbatim>\<open>Columns\<close> the
  value appended or assigned is a pointer.
\<close>

datatype mutation =
    AppendColumn ptr
  | StoreColumn nat ptr
  | AppendOffset int
  | StoreOffset nat int
  | AppendAlias IdentifierCI
  | StoreAlias nat IdentifierCI

definition set_mColumnAliases :: "slice \<Rightarrow> ('op, 'ob) Derived_mem \<Rightarrow> ('op, 'ob) Derived_mem" where
  "set_mColumnAliases s d =
     Derived_mem (mSource d) (mTableId d) (mQP d) (mQuery d) (mAlias d) s (mColumns d)
       (mColumnsOffset d)"

definition set_mColumns :: "slice \<Rightarrow> ('op, 'ob) Derived_mem \<Rightarrow> ('op, 'ob) Derived_mem" where
  "set_mColumns s d =
     Derived_mem (mSource d) (mTableId d) (mQP d) (mQuery d) (mAlias d) (mColumnAliases d) s
       (mColumnsOffset d)"

definition set_mColumnsOffset :: "slice \<Rightarrow> ('op, 'ob) Derived_mem \<Rightarrow> ('op, 'ob) Derived_mem" where
  "set_mColumnsOffset s d =
     Derived_mem (mSource d) (mTableId d) (mQP d) (mQuery d) (mAlias d) (mColumnAliases d)
       (mColumns d) s"

fun mutate ::
  "(nat \<Rightarrow> nat) \<Rightarrow> memory \<Rightarrow> ('op, 'ob) Derived_mem \<Rightarrow> mutation
     \<Rightarrow> (memory \<times> ('op, 'ob) Derived_mem) option" where
  "mutate extra m d (AppendColumn c) =
     (case append_slice extra None (colptrs m) (mColumns d) c of
        (h, s) \<Rightarrow> Some (m\<lparr>colptrs := h\<rparr>, set_mColumns s d))"
| "mutate extra m d (StoreColumn i c) =
     (case store_slice (colptrs m) (mColumns d) i c of
        None \<Rightarrow> None
      | Some h \<Rightarrow> Some (m\<lparr>colptrs := h\<rparr>, d))"
| "mutate extra m d (AppendOffset v) =
     (case append_slice extra 0 (ints m) (mColumnsOffset d) v of
        (h, s) \<Rightarrow> Some (m\<lparr>ints := h\<rparr>, set_mColumnsOffset s d))"
| "mutate extra m d (StoreOffset i v) =
     (case store_slice (ints m) (mColumnsOffset d) i v of
        None \<Rightarrow> None
      | Some h \<Rightarrow> Some (m\<lparr>ints := h\<rparr>, d))"
| "mutate extra m d (AppendAlias a) =
     (case append_slice extra (IdentifierCI []) (idents m) (mColumnAliases d) a of
        (h, s) \<Rightarrow> Some (m\<lparr>idents := h\<rparr>, set_mColumnAliases s d))"
| "mutate extra m d (StoreAlias i a) =
     (case store_slice (idents m) (mColumnAliases d) i a of
        None \<Rightarrow> None
      | Some h \<Rightarrow> Some (m\<lparr>idents := h\<rparr>, d))"

fun mutate_all ::
  "(nat \<Rightarrow> nat) \<Rightarrow> memory \<Rightarrow> ('op, 'ob) Derived_mem \<Rightarrow> mutation list
     \<Rightarrow> (memory \<times> ('op, 'ob) Derived_mem) option" where
  "mutate_all extra m d [] = Some (m, d)"
| "mutate_all extra m d (mu # rest) =
     (case mutate extra m d mu of
        None \<Rightarrow> None
      | Some (m1, d1) \<Rightarrow> mutate_all extra m1 d1 rest)"

text \<open>
  A write through an element of \<^verbatim>\<open>Columns\<close> to the column node it points to,
  \<^verbatim>\<open>*d.Columns[i] = v\<close>: the index is checked against the length of the slice
  and a nil pointer cannot be written through (both panics are the result
  \<open>None\<close>).  No slice changes.
\<close>

fun slice_len :: "slice \<Rightarrow> nat" where
  "slice_len NilSlice = 0"
| "slice_len (Slice a st n c) = n"

definition write_through ::
  "memory \<Rightarrow> ('op, 'ob) Derived_mem \<Rightarrow> nat \<Rightarrow> ColName \<Rightarrow> memory option" where
  "write_through m d i v =
     (if i < slice_len (mColumns d) then
        (case elems (colptrs m) (mColumns d) ! i of
           None \<Rightarrow> None
         | Some a \<Rightarrow>
             if a < length (objects m) then Some (m\<lparr>objects := (objects m)[a := v]\<rparr>)
             else None)
      else None)"

subsection \<open>Vocabulary of the properties\<close>

text \<open>
  A select item matches a name if its explicit alias equals the name or, when it
  has no explicit alias, if its expression is a bare column reference whose name
  equals the name.  An item needs an alias if it has none and its expression is not
  a bare column reference.  \<open>firstMatch\<close> is the position of the first matching
  item in declaration order.
\<close>

definition matches :: "('ti, 'ob) externals \<Rightarrow> ColName \<Rightarrow> SelectExpr \<Rightarrow> bool" where
  "matches ext name exp =
     (case exp of
        Aliased ae \<Rightarrow>
          (if IsEmpty (As ae)
           then (case Expr_of ae of
                   ColNameExpr col \<Rightarrow> IdentEqual ext (Name name) (Name col)
                 | _ \<Rightarrow> False)
           else IdentEqual ext (As ae) (Name name))
      | _ \<Rightarrow> False)"

definition needsAlias :: "SelectExpr \<Rightarrow> bool" where
  "needsAlias exp =
     (case exp of
        Aliased ae \<Rightarrow>
          IsEmpty (As ae) \<and> (case Expr_of ae of ColNameExpr _ \<Rightarrow> False | _ \<Rightarrow> True)
      | _ \<Rightarrow> False)"

fun firstMatch :: "('ti, 'ob) externals \<Rightarrow> ColName \<Rightarrow> SelectExpr list \<Rightarrow> nat option" where
  "firstMatch ext name [] = None"
| "firstMatch ext name (x # xs) =
     (if matches ext name x then Some 0 else map_option Suc (firstMatch ext name xs))"

text \<open>
  The nodes of an expression tree, the node first and then the nodes of its
  children from left to right.  An expression contains an aggregate other than
  \<^verbatim>\<open>MAX\<close>/\<^verbatim>\<open>MIN\<close> if one of its nodes is an aggregate function node that is
  neither a \<^verbatim>\<open>Max\<close> nor a \<^verbatim>\<open>Min\<close> node.
\<close>

function subnodes :: "Expr \<Rightarrow> Expr list" where
  "subnodes node = node # concat (map subnodes (children node))"
  by pat_completeness auto
termination
  by (relation "measure nodes") (auto simp: nodes_child_less)

declare subnodes.simps [simp del]
declare Walk.simps [simp del]

fun isMaxMin :: "Expr \<Rightarrow> bool" where
  "isMaxMin (MaxExpr _) = True"
| "isMaxMin (MinExpr _) = True"
| "isMaxMin _ = False"

definition otherAggr :: "Expr \<Rightarrow> bool" where
  "otherAggr node = (isAggrFunc node \<and> \<not> isMaxMin node)"

definition containsOtherAggr :: "Expr \<Rightarrow> bool" where
  "containsOtherAggr expr = (\<exists>node\<in>set (subnodes expr). otherAggr node)"

text \<open>
  The position of the first element of a list with a property, and the test by
  which \<open>canReuseColumn\<close> compares the requested column with a recorded one.
\<close>

fun firstIndex :: "('a \<Rightarrow> bool) \<Rightarrow> 'a list \<Rightarrow> nat option" where
  "firstIndex P [] = None"
| "firstIndex P (x # xs) = (if P x then Some 0 else map_option Suc (firstIndex P xs))"

definition sameColumn :: "'ti PlanningContext \<Rightarrow> ColName \<Rightarrow> ColName \<Rightarrow> bool" where
  "sameColumn ctx c column = EqualsExprWithDeps ctx (ColNameExpr c) (ColNameExpr column)"

subsection \<open>Sample collaborators and inputs\<close>

text \<open>
  Concrete collaborators for evaluating the operator: identifiers and expressions
  are compared by equality, every expression is attributed to one table, the rewrite
  into the subquery's scope is the identity, and the child accepts every request
  (a predicate by wrapping itself in a filter, a column without changing).
\<close>

definition ext0 :: "(unit, unit) externals" where
  "ext0 = \<lparr>IdentEqual = (=), SQLString = (\<lambda>ae. ''expr''),
     NewColName = (\<lambda>s. \<lparr>Name = IdentifierCI s, Qualifier = []\<rparr>),
     aeWrap = (\<lambda>e. AliasedExpr e (IdentifierCI [])),
     RewriteDerivedTableExpression = (\<lambda>e ti. e),
     CreateQPFromSelect = (\<lambda>ctx q. (Some \<lparr>OrderExprs = []\<rparr>, None)),
     SourceAddPredicate = (\<lambda>ctx src e. (FilterOp src [e], None)),
     SourceAddColumn = (\<lambda>ctx src ae r g. (src, src, 0, None))\<rparr>"

definition ctx0 :: "unit PlanningContext" where
  "ctx0 = \<lparr>TableInfoForExpr = (\<lambda>e. ((), None)), EqualsExprWithDeps = (=)\<rparr>"

definition col :: "string \<Rightarrow> ColName" where
  "col s = \<lparr>Name = IdentifierCI s, Qualifier = []\<rparr>"

definition item :: "Expr \<Rightarrow> string \<Rightarrow> SelectExpr" where
  "item e a = Aliased (AliasedExpr e (IdentifierCI a))"

text \<open>A derived node over a table, with the given select list and nothing requested yet.\<close>

definition derived0 :: "SelectExpr list \<Rightarrow> (unit Operator, unit) Derived" where
  "derived0 es = Derived (OtherOp ''t'' []) 0 None (Select es) ''dt'' [] [] []"

text \<open>The predicates \<^verbatim>\<open>MAX(x) > 1\<close> and \<^verbatim>\<open>COUNT(x) > 1\<close>.\<close>

definition maxPred :: Expr where
  "maxPred = ComparisonExpr ''>'' (MaxExpr (ColNameExpr (col ''x''))) (LiteralExpr ''1'')"

definition countPred :: Expr where
  "countPred = ComparisonExpr ''>'' (CountExpr [ColNameExpr (col ''x'')]) (LiteralExpr ''1'')"

text \<open>
  A request for the column \<open>n\<close> with qualifier \<open>q\<close>; a derived node over
  \<^verbatim>\<open>SELECT *\<close> and one over \<^verbatim>\<open>SELECT a\<close>, with the given columns and offsets
  recorded.
\<close>

definition request :: "string \<Rightarrow> string \<Rightarrow> AliasedExpr" where
  "request q n = AliasedExpr (ColNameExpr \<lparr>Name = IdentifierCI n, Qualifier = q\<rparr>) (IdentifierCI [])"

definition starNode :: "ColName list \<Rightarrow> int list \<Rightarrow> (unit Operator, unit) Derived" where
  "starNode cs os = Derived (OtherOp ''t'' []) 0 None (Select [StarExpr]) ''dt'' [] cs os"

definition namedNode :: "ColName list \<Rightarrow> int list \<Rightarrow> (unit Operator, unit) Derived" where
  "namedNode cs os =
     Derived (OtherOp ''t'' []) 0 None (Select [item (ColNameExpr (col ''a'')) []]) ''dt'' [] cs os"

text \<open>
  A memory with the column nodes \<^verbatim>\<open>y\<close> and \<^verbatim>\<open>z\<close>, holding a node over
  \<^verbatim>\<open>SELECT *\<close> with the column \<^verbatim>\<open>y\<close> recorded at \<open>-1\<close>, its \<^verbatim>\<open>Columns\<close> with
  room for one more element; the memory and the clone after \<open>Clone\<close> when the
  runtime adds no spare capacity; the memory after an append to the \<^verbatim>\<open>Columns\<close>
  of the original and a write to its \<^verbatim>\<open>ColumnsOffset\<close>; the memory after a
  write of the column \<^verbatim>\<open>w\<close> through the first element of the clone's
  \<^verbatim>\<open>Columns\<close>.
\<close>

definition no_spare :: "nat \<Rightarrow> nat" where
  "no_spare n = 0"

definition mem0 :: memory where
  "mem0 = \<lparr>idents = [], colptrs = [[Some 0, None]], objects = [col ''y'', col ''z''],
     ints = [[- 1]]\<rparr>"

definition node0 :: "(unit Operator, unit) Derived_mem" where
  "node0 = Derived_mem (OtherOp ''t'' []) 0 (Some \<lparr>OrderExprs = []\<rparr>) (Select [StarExpr]) ''dt''
     NilSlice (Slice 0 0 1 2) (Slice 0 0 1 1)"

definition mem1 :: memory where
  "mem1 = \<lparr>idents = [], colptrs = [[Some 0, None], [Some 0]], objects = [col ''y'', col ''z''],
     ints = [[- 1], [- 1]]\<rparr>"

definition node1 :: "(unit Operator, unit) Derived_mem" where
  "node1 = Derived_mem NilOp 0 None (Select [StarExpr]) ''dt''
     NilSlice (Slice 1 0 1 1) (Slice 1 0 1 1)"

definition mem2 :: memory where
  "mem2 = \<lparr>idents = [], colptrs = [[Some 0, Some 1], [Some 0]], objects = [col ''y'', col ''z''],
     ints = [[5], [- 1]]\<rparr>"

definition mem3 :: memory where
  "mem3 = \<lparr>idents = [], colptrs = [[Some 0, None], [Some 0]], objects = [col ''w'', col ''z''],
     ints = [[- 1], [- 1]]\<rparr>"

section \<open>Properties\<close>

subsection \<open>Column resolution\<close>

lemma loop_unmatched:
  "firstMatch ext name es = None \<Longrightarrow> \<forall>x\<in>set es. \<not> needsAlias x \<Longrightarrow>
   findOutputColumn_loop ext name es j hs =
     (if hs \<or> StarExpr \<in> set es then (- 1, None)
      else (0, Some (VT03014 (String_of (Name name)) ''field list'')))"
proof (induction es arbitrary: j hs)
  case Nil
  then show ?case by simp
next
  case (Cons x es)
  then show ?case
    by (cases x) (auto simp: matches_def needsAlias_def split: Expr.splits if_splits)
qed

lemma loop_matched:
  "firstMatch ext name es = Some k \<Longrightarrow> \<forall>x\<in>set (take k es). \<not> needsAlias x \<Longrightarrow>
   findOutputColumn_loop ext name es j hs = (j + int k, None)"
proof (induction es arbitrary: j hs k)
  case Nil
  then show ?case by simp
next
  case (Cons x es)
  show ?case
  proof (cases "matches ext name x")
    case True
    with Cons.prems show ?thesis
      by (cases x) (auto simp: matches_def split: Expr.splits if_splits)
  next
    case False
    with Cons.prems obtain k' where k: "k = Suc k'" "firstMatch ext name es = Some k'"
      by auto
    with Cons.prems have na: "\<not> needsAlias x" "\<forall>x\<in>set (take k' es). \<not> needsAlias x"
      by auto
    have "findOutputColumn_loop ext name es (j + 1) (hs \<or> x = StarExpr) = (j + 1 + int k', None)"
      using Cons.IH [OF k(2) na(2)] .
    with False na(1) k(1) show ?thesis
      by (cases x) (auto simp: matches_def needsAlias_def split: Expr.splits if_splits)
  qed
qed

lemma loop_complex:
  "firstMatch ext name pre = None \<Longrightarrow> \<forall>x\<in>set pre. \<not> needsAlias x \<Longrightarrow>
   needsAlias (Aliased ae) \<Longrightarrow>
   findOutputColumn_loop ext name (pre @ Aliased ae # post) j hs =
     (0, Some (VT12001 (''complex expression needs column alias: '' @ SQLString ext ae)))"
proof (induction pre arbitrary: j hs)
  case Nil
  then show ?case by (auto simp: needsAlias_def split: Expr.splits)
next
  case (Cons x pre)
  then show ?case
    by (cases x) (auto simp: matches_def needsAlias_def split: Expr.splits if_splits)
qed

lemmas sample_defs =
  ext0_def ctx0_def col_def item_def derived0_def matches_def needsAlias_def IsEmpty_def

text \<open>
  Claim C4, as stated: for a name matched by no select item, \<open>findOutputColumn\<close>
  returns \<open>-1\<close> without error if the select list has a wildcard and the
  unknown-column error if it has none; for a matched name it returns the index of
  the first matching item.  Each part fails on a select list with an item that needs
  an alias, where the result is the error for a complex expression without alias:
  on \<^verbatim>\<open>*, 1\<close> for the name \<^verbatim>\<open>y\<close> (no item matches, the list has a wildcard), on
  \<^verbatim>\<open>1\<close> for the name \<^verbatim>\<open>y\<close> (no item matches, no wildcard), and on \<^verbatim>\<open>1, y\<close> for
  the name \<^verbatim>\<open>y\<close> (the first matching item has index 1).
\<close>

theorem findOutputColumn_star_counterexample:
  "firstMatch ext0 (col ''y'') (GetFirstSelect (Query (derived0 [StarExpr, item (LiteralExpr ''1'') []]))) = None
   \<and> StarExpr \<in> set (GetFirstSelect (Query (derived0 [StarExpr, item (LiteralExpr ''1'') []])))
   \<and> findOutputColumn ext0 (derived0 [StarExpr, item (LiteralExpr ''1'') []]) (col ''y'')
       = (0, Some (VT12001 ''complex expression needs column alias: expr''))
   \<and> firstMatch ext0 (col ''y'') (GetFirstSelect (Query (derived0 [item (LiteralExpr ''1'') []]))) = None
   \<and> StarExpr \<notin> set (GetFirstSelect (Query (derived0 [item (LiteralExpr ''1'') []])))
   \<and> findOutputColumn ext0 (derived0 [item (LiteralExpr ''1'') []]) (col ''y'')
       = (0, Some (VT12001 ''complex expression needs column alias: expr''))
   \<and> firstMatch ext0 (col ''y'')
         (GetFirstSelect (Query (derived0 [item (LiteralExpr ''1'') [], item (ColNameExpr (col ''y'')) []])))
       = Some 1
   \<and> findOutputColumn ext0
         (derived0 [item (LiteralExpr ''1'') [], item (ColNameExpr (col ''y'')) []]) (col ''y'')
       = (0, Some (VT12001 ''complex expression needs column alias: expr''))"
  by (simp add: findOutputColumn_def sample_defs)

text \<open>
  Claim C4, amended: when no item of the select list needs an alias, a name matched
  by no item resolves to \<open>-1\<close> without error if the list has a wildcard, and to the
  unknown-column error for the \<^verbatim>\<open>field list\<close> if it has none; a matched name
  resolves to the index of its first matching item, provided no item before that
  one needs an alias.
\<close>

theorem findOutputColumn_resolution:
  "(firstMatch ext name (GetFirstSelect (Query d)) = None
      \<and> (\<forall>x\<in>set (GetFirstSelect (Query d)). \<not> needsAlias x)
    \<longrightarrow> findOutputColumn ext d name =
         (if StarExpr \<in> set (GetFirstSelect (Query d)) then (- 1, None)
          else (0, Some (VT03014 (String_of (Name name)) ''field list''))))
   \<and> (\<forall>k. firstMatch ext name (GetFirstSelect (Query d)) = Some k
          \<and> (\<forall>x\<in>set (take k (GetFirstSelect (Query d))). \<not> needsAlias x)
        \<longrightarrow> findOutputColumn ext d name = (int k, None))"
  using loop_unmatched [of ext name "GetFirstSelect (Query d)" 0 False]
    loop_matched [of ext name "GetFirstSelect (Query d)" _ 0 False]
  by (simp add: findOutputColumn_def)

text \<open>
  The three cases on the subqueries \<^verbatim>\<open>SELECT *, SUM(x) AS total\<close> and
  \<^verbatim>\<open>SELECT a, b\<close>: \<^verbatim>\<open>y\<close> falls back on the wildcard, \<^verbatim>\<open>total\<close> is found at
  index 1, and \<^verbatim>\<open>c\<close> is unknown.
\<close>

theorem findOutputColumn_resolution_witness:
  "findOutputColumn ext0
      (derived0 [StarExpr, item (SumExpr (ColNameExpr (col ''x''))) ''total'']) (col ''y'')
     = (- 1, None)
   \<and> findOutputColumn ext0
      (derived0 [StarExpr, item (SumExpr (ColNameExpr (col ''x''))) ''total'']) (col ''total'')
     = (1, None)
   \<and> findOutputColumn ext0
      (derived0 [item (ColNameExpr (col ''a'')) [], item (ColNameExpr (col ''b'')) []]) (col ''c'')
     = (0, Some (VT03014 ''c'' ''field list''))"
proof (intro conjI)
  show "findOutputColumn ext0
      (derived0 [StarExpr, item (SumExpr (ColNameExpr (col ''x''))) ''total'']) (col ''y'')
     = (- 1, None)"
    using findOutputColumn_resolution [of ext0 "col ''y''"
        "derived0 [StarExpr, item (SumExpr (ColNameExpr (col ''x''))) ''total'']"]
    by (simp add: sample_defs)
  show "findOutputColumn ext0
      (derived0 [StarExpr, item (SumExpr (ColNameExpr (col ''x''))) ''total'']) (col ''total'')
     = (1, None)"
    using findOutputColumn_resolution [of ext0 "col ''total''"
        "derived0 [StarExpr, item (SumExpr (ColNameExpr (col ''x''))) ''total'']"]
    by (simp add: sample_defs)
  show "findOutputColumn ext0
      (derived0 [item (ColNameExpr (col ''a'')) [], item (ColNameExpr (col ''b'')) []]) (col ''c'')
     = (0, Some (VT03014 ''c'' ''field list''))"
    using findOutputColumn_resolution [of ext0 "col ''c''"
        "derived0 [item (ColNameExpr (col ''a'')) [], item (ColNameExpr (col ''b'')) []]"]
    by (simp add: sample_defs)
qed

text \<open>
  Claim C10: when the scan reaches an item that needs an alias before any matching
  item, \<open>findOutputColumn\<close> returns the error for a complex expression without
  alias, whatever precedes that item (a wildcard among it) and whatever follows it
  (a matching item among it).
\<close>

theorem findOutputColumn_complex_expression:
  assumes "GetFirstSelect (Query d) = pre @ Aliased ae # post"
    and "needsAlias (Aliased ae)"
    and "firstMatch ext name pre = None"
    and "\<forall>x\<in>set pre. \<not> needsAlias x"
  shows "findOutputColumn ext d name =
     (0, Some (VT12001 (''complex expression needs column alias: '' @ SQLString ext ae)))"
  using assms loop_complex [of ext name pre ae post 0 False]
  by (simp add: findOutputColumn_def)

text \<open>
  On \<^verbatim>\<open>SELECT *, 1, y\<close> the name \<^verbatim>\<open>y\<close> is an error although the list has a
  wildcard and its third item matches.
\<close>

theorem findOutputColumn_complex_expression_witness:
  "StarExpr \<in> set [StarExpr, item (LiteralExpr ''1'') [], item (ColNameExpr (col ''y'')) []]
   \<and> firstMatch ext0 (col ''y'')
        [StarExpr, item (LiteralExpr ''1'') [], item (ColNameExpr (col ''y'')) []] = Some 2
   \<and> findOutputColumn ext0
        (derived0 [StarExpr, item (LiteralExpr ''1'') [], item (ColNameExpr (col ''y'')) []])
        (col ''y'')
     = (0, Some (VT12001 ''complex expression needs column alias: expr''))"
  using findOutputColumn_complex_expression [of
      "derived0 [StarExpr, item (LiteralExpr ''1'') [], item (ColNameExpr (col ''y'')) []]"
      "[StarExpr]" "AliasedExpr (LiteralExpr ''1'') (IdentifierCI [])"
      "[item (ColNameExpr (col ''y'')) []]" ext0 "col ''y''"]
  by (simp add: sample_defs)

subsection \<open>Predicate pushdown\<close>

lemma pushdown_visit_eq:
  "pushdown_visit node b =
     (if otherAggr node then ((False, Some EOF), False) else ((True, None), b))"
  by (cases node) (simp_all add: pushdown_visit_def otherAggr_def)

lemma containsOtherAggr_unfold:
  "containsOtherAggr node =
     (otherAggr node \<or> (\<exists>c\<in>set (children node). containsOtherAggr c))"
  by (subst containsOtherAggr_def, subst subnodes.simps) (auto simp: containsOtherAggr_def)

text \<open>
  The walk with the closure of \<open>canBePushedDownIntoDerived\<close> stops with
  \<^verbatim>\<open>io.EOF\<close> and the flag cleared exactly when the tree contains an aggregate other
  than \<^verbatim>\<open>MAX\<close>/\<^verbatim>\<open>MIN\<close>; by induction along the recursion of the walk.
\<close>

lemma Walk_pushdown:
  "Walk pushdown_visit node b =
     (if containsOtherAggr node then (Some EOF, False) else (None, b))"
  and WalkList_pushdown:
  "WalkList pushdown_visit es b =
     (if \<exists>e\<in>set es. containsOtherAggr e then (Some EOF, False) else (None, b))"
proof (induction pushdown_visit node b and pushdown_visit es b rule: Walk_WalkList.induct)
  case (1 node s)
  show ?case
  proof (cases "otherAggr node")
    case True
    then show ?thesis
      by (subst Walk.simps) (simp add: pushdown_visit_eq containsOtherAggr_unfold [of node])
  next
    case False
    then have "Walk pushdown_visit node s = WalkList pushdown_visit (children node) s"
      by (subst Walk.simps) (simp add: pushdown_visit_eq)
    also have "\<dots> =
        (if \<exists>e\<in>set (children node). containsOtherAggr e then (Some EOF, False) else (None, s))"
      using False by (intro "1.hyps") (simp_all add: pushdown_visit_eq)
    finally show ?thesis
      using False by (simp add: containsOtherAggr_unfold [of node])
  qed
next
  case (2 s)
  show ?case by simp
next
  case (3 node rest s)
  show ?case
  proof (cases "containsOtherAggr node")
    case True
    then show ?thesis using "3.hyps"(1) by simp
  next
    case False
    then have w: "Walk pushdown_visit node s = (None, s)"
      using "3.hyps"(1) by simp
    then have "WalkList pushdown_visit rest s =
        (if \<exists>e\<in>set rest. containsOtherAggr e then (Some EOF, False) else (None, s))"
      by (intro "3.hyps"(2)) simp_all
    with w False show ?thesis by simp
  qed
qed

lemma canBePushed_iff: "canBePushedDownIntoDerived expr = (\<not> containsOtherAggr expr)"
  by (simp add: canBePushedDownIntoDerived_def Walk_pushdown)

lemma containsOtherAggr_countPred: "containsOtherAggr countPred"
  by (simp add: countPred_def containsOtherAggr_def subnodes.simps otherAggr_def)

lemma containsOtherAggr_maxPred: "\<not> containsOtherAggr maxPred"
  by (simp add: maxPred_def containsOtherAggr_def subnodes.simps otherAggr_def)

text \<open>
  Claim C3: on a derived node whose child is not a union, and for an expression
  that the semantic context attributes to a single table, \<open>AddPredicate\<close> refuses
  the pushdown exactly when the rewritten expression contains an aggregate function
  node that is neither \<^verbatim>\<open>Max\<close> nor \<^verbatim>\<open>Min\<close>.  It then returns a filter with the
  original expression over the derived node, which is left as it was.  Otherwise the
  rewritten expression is handed to \<^verbatim>\<open>AddPredicate\<close> of the child, the child is
  replaced by the operator that call returns, and the derived node itself is
  returned; an error of the child's call is passed on in place of the node.
\<close>

theorem AddPredicate_pushdown_decision:
  assumes "\<not> isUnion (Source d)"
    and "TableInfoForExpr ctx expr = (tableInfo, None)"
    and "newExpr = RewriteDerivedTableExpression ext expr tableInfo"
  shows "(containsOtherAggr newExpr \<longrightarrow>
            AddPredicate ext ctx d expr = (d, FilterOp (DerivedOp d) [expr], None))
       \<and> (\<not> containsOtherAggr newExpr \<longrightarrow>
            AddPredicate ext ctx d expr =
              (case SourceAddPredicate ext ctx (Source d) newExpr of
                 (src, None) \<Rightarrow> (set_Source src d, DerivedOp (set_Source src d), None)
               | (src, Some err) \<Rightarrow> (set_Source src d, NilOp, Some err)))
       \<and> ((\<exists>ps. fst (snd (AddPredicate ext ctx d expr)) = FilterOp (DerivedOp d) ps)
            \<longleftrightarrow> containsOtherAggr newExpr)"
proof -
  have eq: "AddPredicate ext ctx d expr =
      (if containsOtherAggr newExpr then (d, FilterOp (DerivedOp d) [expr], None)
       else (case SourceAddPredicate ext ctx (Source d) newExpr of
                 (src, None) \<Rightarrow> (set_Source src d, DerivedOp (set_Source src d), None)
               | (src, Some err) \<Rightarrow> (set_Source src d, NilOp, Some err)))"
    using assms
    by (simp add: AddPredicate_def canBePushed_iff Let_def split: prod.splits option.splits)
  show ?thesis
    by (simp add: eq split: prod.splits option.splits)
qed

text \<open>
  \<^verbatim>\<open>COUNT(x) > 1\<close> is kept above the derived node, \<^verbatim>\<open>MAX(x) > 1\<close> reaches the
  child, which here wraps itself in a filter.
\<close>

theorem AddPredicate_pushdown_decision_witness:
  "AddPredicate ext0 ctx0 (derived0 [StarExpr]) countPred
     = (derived0 [StarExpr], FilterOp (DerivedOp (derived0 [StarExpr])) [countPred], None)
   \<and> AddPredicate ext0 ctx0 (derived0 [StarExpr]) maxPred
     = (set_Source (FilterOp (OtherOp ''t'' []) [maxPred]) (derived0 [StarExpr]),
        DerivedOp (set_Source (FilterOp (OtherOp ''t'' []) [maxPred]) (derived0 [StarExpr])),
        None)"
proof
  show "AddPredicate ext0 ctx0 (derived0 [StarExpr]) countPred
     = (derived0 [StarExpr], FilterOp (DerivedOp (derived0 [StarExpr])) [countPred], None)"
    using containsOtherAggr_countPred
      AddPredicate_pushdown_decision [of "derived0 [StarExpr]" ctx0 countPred "()" countPred ext0]
    by (simp add: ext0_def ctx0_def derived0_def)
  show "AddPredicate ext0 ctx0 (derived0 [StarExpr]) maxPred
     = (set_Source (FilterOp (OtherOp ''t'' []) [maxPred]) (derived0 [StarExpr]),
        DerivedOp (set_Source (FilterOp (OtherOp ''t'' []) [maxPred]) (derived0 [StarExpr])),
        None)"
    using containsOtherAggr_maxPred
      AddPredicate_pushdown_decision [of "derived0 [StarExpr]" ctx0 maxPred "()" maxPred ext0]
    by (simp add: ext0_def ctx0_def derived0_def)
qed

text \<open>
  Claim C6: on a derived node whose child is not a union, when the semantic context
  answers the attribution of the expression with \<^verbatim>\<open>ErrNotSingleTable\<close>,
  \<open>AddPredicate\<close> returns without error a filter whose source is the derived node
  and whose predicates are the expression alone, and leaves the derived node as it
  was, every field included.
\<close>

theorem AddPredicate_not_single_table:
  assumes "\<not> isUnion (Source d)"
    and "TableInfoForExpr ctx expr = (tableInfo, Some ErrNotSingleTable)"
  shows "AddPredicate ext ctx d expr = (d, FilterOp (DerivedOp d) [expr], None)"
  using assms by (simp add: AddPredicate_def)

theorem AddPredicate_not_single_table_witness:
  "AddPredicate ext0 (ctx0\<lparr>TableInfoForExpr := \<lambda>e. ((), Some ErrNotSingleTable)\<rparr>)
      (derived0 [StarExpr]) maxPred
     = (derived0 [StarExpr], FilterOp (DerivedOp (derived0 [StarExpr])) [maxPred], None)"
  using AddPredicate_not_single_table [of "derived0 [StarExpr]"
      "ctx0\<lparr>TableInfoForExpr := \<lambda>e. ((), Some ErrNotSingleTable)\<rparr>" maxPred "()" ext0]
  by (simp add: derived0_def)

subsection \<open>Column pushdown\<close>

lemma firstIndex_None: "firstIndex P xs = None \<longleftrightarrow> (\<forall>x\<in>set xs. \<not> P x)"
  by (induction xs) auto

lemma firstIndex_Some:
  "firstIndex P xs = Some n \<Longrightarrow> n < length xs \<and> P (xs ! n) \<and> (\<forall>j<n. \<not> P (xs ! j))"
proof (induction xs arbitrary: n)
  case Nil
  then show ?case by simp
next
  case (Cons x xs)
  show ?case
  proof (cases "P x")
    case True
    with Cons.prems show ?thesis by simp
  next
    case False
    with Cons.prems obtain m where m: "n = Suc m" "firstIndex P xs = Some m" by auto
    from Cons.IH [OF m(2)] False m(1) show ?thesis
      by (auto simp: nth_Cons split: nat.splits)
  qed
qed

lemma firstIndex_append:
  "firstIndex P (xs @ ys) =
     (case firstIndex P xs of
        Some n \<Rightarrow> Some n
      | None \<Rightarrow>
          (case firstIndex P ys of None \<Rightarrow> None | Some m \<Rightarrow> Some (length xs + m)))"
  by (induction xs) (auto split: option.splits)

lemma canReuseColumn_loop_eq:
  "canReuseColumn_loop ctx columns c f offset =
     (case firstIndex (\<lambda>x. EqualsExprWithDeps ctx c (f x)) columns of
        None \<Rightarrow> (0, False)
      | Some n \<Rightarrow> (offset + int n, True))"
  by (induction columns arbitrary: offset) (auto split: option.splits)

lemma canReuseColumn_eq:
  "canReuseColumn ctx columns (ColNameExpr c) ColNameExpr =
     (case firstIndex (sameColumn ctx c) columns of
        None \<Rightarrow> (0, False)
      | Some n \<Rightarrow> (int n, True))"
proof -
  have "(\<lambda>x. EqualsExprWithDeps ctx (ColNameExpr c) (ColNameExpr x)) = sameColumn ctx c"
    by (rule ext) (simp add: sameColumn_def)
  then show ?thesis
    by (simp add: canReuseColumn_def canReuseColumn_loop_eq split: option.splits)
qed

lemma addToIntSlice_loop_eq:
  "addToIntSlice_loop xs v idx =
     (case firstIndex (\<lambda>x. x = v) xs of None \<Rightarrow> None | Some n \<Rightarrow> Some (idx + int n))"
  by (induction xs arbitrary: idx) (auto split: option.splits)

lemma addToIntSlice_eq:
  "addToIntSlice xs v =
     (case firstIndex (\<lambda>x. x = v) xs of
        Some n \<Rightarrow> (xs, int n)
      | None \<Rightarrow> (xs @ [v], int (length xs)))"
  by (simp add: addToIntSlice_def addToIntSlice_loop_eq split: option.splits)

lemma addToIntSlice_props:
  assumes "addToIntSlice xs v = (ys, k)"
  shows "0 \<le> k" and "nat k < length ys" and "ys ! nat k = v"
    and "firstIndex (\<lambda>x. x = v) ys = Some (nat k)"
    and "length xs \<le> length ys" and "length ys \<le> Suc (length xs)"
    and "v \<notin> set xs \<Longrightarrow> ys = xs @ [v]" and "v \<in> set xs \<Longrightarrow> ys = xs"
    and "distinct xs \<Longrightarrow> distinct ys"
proof -
  show "0 \<le> k" "length xs \<le> length ys" "length ys \<le> Suc (length xs)"
    using assms by (auto simp: addToIntSlice_eq split: option.splits)
  show "nat k < length ys" "ys ! nat k = v"
    using assms firstIndex_Some [of "\<lambda>x. x = v" xs]
    by (auto simp: addToIntSlice_eq split: option.splits)
  show "firstIndex (\<lambda>x. x = v) ys = Some (nat k)"
    using assms
    by (auto simp: addToIntSlice_eq firstIndex_append split: option.splits)
  show "v \<notin> set xs \<Longrightarrow> ys = xs @ [v]" "v \<in> set xs \<Longrightarrow> ys = xs"
    using assms firstIndex_None [of "\<lambda>x. x = v" xs]
    by (auto simp: addToIntSlice_eq split: option.splits)
  show "distinct xs \<Longrightarrow> distinct ys"
    using assms firstIndex_None [of "\<lambda>x. x = v" xs]
    by (auto simp: addToIntSlice_eq split: option.splits)
qed

lemma addToIntSlice_again:
  assumes "addToIntSlice xs v = (ys, k)"
  shows "addToIntSlice ys v = (ys, k)"
  using addToIntSlice_props(1,4) [OF assms] by (simp add: addToIntSlice_eq)

lemma distinct_count_list: "distinct xs \<Longrightarrow> x \<in> set xs \<Longrightarrow> count_list xs x = 1"
  by (induction xs) (auto simp: count_list_0_iff)

lemmas set_defs = set_Source_def set_QP_def set_Columns_def set_ColumnsOffset_def

lemma AddColumn_not_ColName:
  "\<forall>c. Expr_of expr \<noteq> ColNameExpr c \<Longrightarrow>
   AddColumn ext ctx d expr r g =
     (d, NilOp, 0, Some (VT13001 ''cannot push non-colname expression to a derived table''))"
  by (cases "Expr_of expr") (simp_all add: AddColumn_def)

lemma AddColumn_reused:
  assumes "Expr_of expr = ColNameExpr c"
    and "firstIndex (sameColumn ctx c) (Columns d) = Some n"
  shows "AddColumn ext ctx d expr r g = (d, DerivedOp d, int n, None)"
  using assms by (simp add: AddColumn_def canReuseColumn_eq)

lemma AddColumn_unresolved:
  assumes "Expr_of expr = ColNameExpr c"
    and "firstIndex (sameColumn ctx c) (Columns d) = None"
    and "findOutputColumn ext d c = (i, Some err)"
  shows "AddColumn ext ctx d expr r g = (d, NilOp, 0, Some err)"
  using assms by (simp add: AddColumn_def canReuseColumn_eq)

lemma AddColumn_resolved:
  assumes "Expr_of expr = ColNameExpr c"
    and "firstIndex (sameColumn ctx c) (Columns d) = None"
    and "findOutputColumn ext d c = (i, None)"
    and "addToIntSlice (ColumnsOffset d) i = (offs, pos)"
    and "d1 = set_Columns (Columns d @ [c]) (set_ColumnsOffset offs d)"
  shows "AddColumn ext ctx d expr r g =
     (if i \<le> - 1 then
        (case SourceAddColumn ext ctx (Source d1)
                (aeWrap ext (ColNameExpr (NewColName ext (String_of (Name c))))) True g of
           (src, newSrc, _, Some err) \<Rightarrow> (set_Source src d1, NilOp, 0, Some err)
         | (src, newSrc, _, None) \<Rightarrow>
             (set_Source newSrc d1, DerivedOp (set_Source newSrc d1), pos, None))
      else (d1, DerivedOp d1, pos, None))"
  using assms(1-4) unfolding assms(5)
  by (simp add: AddColumn_def canReuseColumn_eq Let_def)

text \<open>What a call of \<open>AddColumn\<close> can do to the two slices.\<close>

lemma AddColumn_slices:
  "(Columns (fst (AddColumn ext ctx d expr r g)) = Columns d
      \<and> ColumnsOffset (fst (AddColumn ext ctx d expr r g)) = ColumnsOffset d)
   \<or> (\<exists>c i. Expr_of expr = ColNameExpr c
         \<and> firstIndex (sameColumn ctx c) (Columns d) = None
         \<and> findOutputColumn ext d c = (i, None)
         \<and> Columns (fst (AddColumn ext ctx d expr r g)) = Columns d @ [c]
         \<and> ColumnsOffset (fst (AddColumn ext ctx d expr r g))
             = fst (addToIntSlice (ColumnsOffset d) i))"
proof (cases "\<exists>c. Expr_of expr = ColNameExpr c")
  case False
  then show ?thesis by (simp add: AddColumn_not_ColName)
next
  case True
  then obtain c where c: "Expr_of expr = ColNameExpr c" by blast
  show ?thesis
  proof (cases "firstIndex (sameColumn ctx c) (Columns d)")
    case (Some n)
    then show ?thesis by (simp add: AddColumn_reused [OF c])
  next
    case None
    obtain i e where f: "findOutputColumn ext d c = (i, e)" by (cases "findOutputColumn ext d c")
    show ?thesis
    proof (cases e)
      case (Some err)
      with f show ?thesis by (simp add: AddColumn_unresolved [OF c None])
    next
      case none: None
      obtain offs pos where a: "addToIntSlice (ColumnsOffset d) i = (offs, pos)"
        by (cases "addToIntSlice (ColumnsOffset d) i")
      from f none have f': "findOutputColumn ext d c = (i, None)" by simp
      show ?thesis
        using c None f' a
        by (auto simp: AddColumn_resolved [OF c None f' a refl] set_defs
              split: prod.splits option.splits)
    qed
  qed
qed

lemma AddColumn_lengths:
  assumes "length (ColumnsOffset d) \<le> length (Columns d)"
  shows "length (ColumnsOffset (fst (AddColumn ext ctx d expr r g)))
           \<le> length (Columns (fst (AddColumn ext ctx d expr r g)))"
proof -
  have "length (fst (addToIntSlice (ColumnsOffset d) i)) \<le> Suc (length (ColumnsOffset d))" for i
    using addToIntSlice_props(6) [of "ColumnsOffset d" i] by (cases "addToIntSlice (ColumnsOffset d) i") simp
  moreover have "Suc (length (ColumnsOffset d)) \<le> length (Columns d @ [c])" for c
    using assms by simp
  ultimately have "length (fst (addToIntSlice (ColumnsOffset d) i)) \<le> length (Columns d @ [c])" for i c
    by (rule le_trans)
  with assms AddColumn_slices [of ext ctx d expr r g] show ?thesis
    by (elim disjE exE conjE) simp_all
qed

text \<open>The recorded offsets stay pairwise different.\<close>

lemma AddColumn_distinct:
  assumes "distinct (ColumnsOffset d)"
  shows "distinct (ColumnsOffset (fst (AddColumn ext ctx d expr r g)))"
proof -
  have "distinct (fst (addToIntSlice (ColumnsOffset d) i))" for i
    using addToIntSlice_props(9) [of "ColumnsOffset d" i] assms
    by (cases "addToIntSlice (ColumnsOffset d) i") simp
  with assms AddColumn_slices [of ext ctx d expr r g] show ?thesis
    by (elim disjE exE conjE) simp_all
qed

lemmas eval_defs = AddColumn_def canReuseColumn_def findOutputColumn_def addToIntSlice_def
  set_defs request_def starNode_def namedNode_def sample_defs Let_def

lemma AddColumn_resolved_ok:
  assumes c: "Expr_of expr = ColNameExpr c"
    and n: "\<not> snd (canReuseColumn ctx (Columns d) (ColNameExpr c) ColNameExpr)"
    and f: "findOutputColumn ext d c = (i, None)"
    and a: "AddColumn ext ctx d expr r g = (d', op, k, None)"
  shows "Columns d' = Columns d @ [c]"
    and "addToIntSlice (ColumnsOffset d) i = (ColumnsOffset d', k)"
    and "op = DerivedOp d'"
    and "Query d' = Query d"
proof -
  from n have none: "firstIndex (sameColumn ctx c) (Columns d) = None"
    by (simp add: canReuseColumn_eq split: option.splits)
  obtain offs pos where s: "addToIntSlice (ColumnsOffset d) i = (offs, pos)"
    by (cases "addToIntSlice (ColumnsOffset d) i")
  from a have *: "Columns d' = Columns d @ [c] \<and> ColumnsOffset d' = offs \<and> k = pos
      \<and> op = DerivedOp d' \<and> Query d' = Query d"
    unfolding AddColumn_resolved [OF c none f s refl]
    by (auto simp: set_defs split: if_splits prod.splits option.splits)
  from * show "Columns d' = Columns d @ [c]" "op = DerivedOp d'" "Query d' = Query d"
    by simp_all
  from * s show "addToIntSlice (ColumnsOffset d) i = (ColumnsOffset d', k)" by simp
qed

text \<open>
  Claim C5: on a derived node whose recorded offsets are pairwise different (as
  they are from the empty node on, see \<open>AddColumn_distinct\<close>), let two
  successive successful calls of \<open>AddColumn\<close> both take the path through
  \<open>findOutputColumn\<close> (neither column is found among the recorded columns) and
  both resolve to the same index \<open>i\<close>.  Then \<open>i\<close> occurs exactly once in
  \<open>ColumnsOffset\<close>, both calls return the position of that one slot, and
  \<open>Columns\<close> has gained the two columns, which the equivalence test of the
  context tells apart.
\<close>

theorem AddColumn_shared_offset:
  assumes "distinct (ColumnsOffset d)"
    and "Expr_of e1 = ColNameExpr c1" and "Expr_of e2 = ColNameExpr c2"
    and "\<not> snd (canReuseColumn ctx (Columns d) (ColNameExpr c1) ColNameExpr)"
    and "findOutputColumn ext d c1 = (i, None)"
    and "AddColumn ext ctx d e1 r1 g1 = (d1, op1, k1, None)"
    and "\<not> snd (canReuseColumn ctx (Columns d1) (ColNameExpr c2) ColNameExpr)"
    and "findOutputColumn ext d1 c2 = (i, None)"
    and "AddColumn ext ctx d1 e2 r2 g2 = (d2, op2, k2, None)"
  shows "count_list (ColumnsOffset d2) i = 1
       \<and> k1 = k2 \<and> 0 \<le> k1 \<and> nat k1 < length (ColumnsOffset d2)
       \<and> ColumnsOffset d2 ! nat k1 = i
       \<and> Columns d2 = Columns d @ [c1, c2]
       \<and> \<not> EqualsExprWithDeps ctx (ColNameExpr c2) (ColNameExpr c1)
       \<and> op1 = DerivedOp d1 \<and> op2 = DerivedOp d2"
proof -
  note first = AddColumn_resolved_ok [OF assms(2) assms(4) assms(5) assms(6)]
  note second = AddColumn_resolved_ok [OF assms(3) assms(7) assms(8) assms(9)]
  from addToIntSlice_again [OF first(2)] second(2)
  have same: "ColumnsOffset d2 = ColumnsOffset d1" "k2 = k1" by simp_all
  note p = addToIntSlice_props [OF first(2)]
  from p(9) assms(1) have "distinct (ColumnsOffset d1)" by simp
  moreover from p(2,3) have "i \<in> set (ColumnsOffset d1)" by (metis nth_mem)
  ultimately have "count_list (ColumnsOffset d1) i = 1" by (rule distinct_count_list)
  moreover from assms(7) first(1) have "\<not> sameColumn ctx c2 c1"
    by (auto simp: canReuseColumn_eq firstIndex_None split: option.splits)
  ultimately show ?thesis
    using same p(1,2,3) first(1,3) second(1,3) by (simp add: sameColumn_def)
qed

text \<open>
  The subquery \<^verbatim>\<open>SELECT a\<close> and the requests \<^verbatim>\<open>dt.a\<close> and \<^verbatim>\<open>a\<close>, which the
  sample context tells apart: both resolve to index 0 and both calls return slot 0.
\<close>

theorem AddColumn_shared_offset_witness:
  "AddColumn ext0 ctx0 (namedNode [] []) (request ''dt'' ''a'') True False
     = (namedNode [\<lparr>Name = IdentifierCI ''a'', Qualifier = ''dt''\<rparr>] [0],
        DerivedOp (namedNode [\<lparr>Name = IdentifierCI ''a'', Qualifier = ''dt''\<rparr>] [0]), 0, None)
   \<and> AddColumn ext0 ctx0 (namedNode [\<lparr>Name = IdentifierCI ''a'', Qualifier = ''dt''\<rparr>] [0])
        (request [] ''a'') True False
     = (namedNode [\<lparr>Name = IdentifierCI ''a'', Qualifier = ''dt''\<rparr>, col ''a''] [0],
        DerivedOp (namedNode [\<lparr>Name = IdentifierCI ''a'', Qualifier = ''dt''\<rparr>, col ''a''] [0]),
        0, None)
   \<and> count_list
        (ColumnsOffset (namedNode [\<lparr>Name = IdentifierCI ''a'', Qualifier = ''dt''\<rparr>, col ''a''] [0]))
        0 = 1"
proof -
  have 1: "AddColumn ext0 ctx0 (namedNode [] []) (request ''dt'' ''a'') True False
     = (namedNode [\<lparr>Name = IdentifierCI ''a'', Qualifier = ''dt''\<rparr>] [0],
        DerivedOp (namedNode [\<lparr>Name = IdentifierCI ''a'', Qualifier = ''dt''\<rparr>] [0]), 0, None)"
    by (simp add: eval_defs)
  have 2: "AddColumn ext0 ctx0 (namedNode [\<lparr>Name = IdentifierCI ''a'', Qualifier = ''dt''\<rparr>] [0])
        (request [] ''a'') True False
     = (namedNode [\<lparr>Name = IdentifierCI ''a'', Qualifier = ''dt''\<rparr>, col ''a''] [0],
        DerivedOp (namedNode [\<lparr>Name = IdentifierCI ''a'', Qualifier = ''dt''\<rparr>, col ''a''] [0]),
        0, None)"
    by (simp add: eval_defs)
  have "count_list
        (ColumnsOffset (namedNode [\<lparr>Name = IdentifierCI ''a'', Qualifier = ''dt''\<rparr>, col ''a''] [0]))
        0 = 1"
    using AddColumn_shared_offset [where ext = ext0 and ctx = ctx0 and d = "namedNode [] []"
        and ?e1.0 = "request ''dt'' ''a''" and ?e2.0 = "request [] ''a''"
        and ?c1.0 = "\<lparr>Name = IdentifierCI ''a'', Qualifier = ''dt''\<rparr>" and ?c2.0 = "col ''a''"
        and i = 0, OF _ _ _ _ _ 1 _ _ 2]
    by (simp add: canReuseColumn_def findOutputColumn_def request_def namedNode_def sample_defs)
  with 1 2 show ?thesis by simp
qed

text \<open>
  Claim C2, as stated: \<open>len(Columns) = len(ColumnsOffset)\<close> is preserved by every
  successful \<open>AddColumn\<close>, also when two columns resolve to the same index.  On
  the subquery \<^verbatim>\<open>SELECT *\<close> the requests \<^verbatim>\<open>y\<close> and \<^verbatim>\<open>z\<close> both resolve
  to \<open>-1\<close>; both calls succeed, and they turn a node with two empty slices into
  one with two columns and one offset.
\<close>

theorem lengths_counterexample:
  "length (Columns (starNode [] [])) = length (ColumnsOffset (starNode [] []))
   \<and> AddColumn ext0 ctx0 (starNode [] []) (request [] ''y'') True False
       = (starNode [col ''y''] [- 1], DerivedOp (starNode [col ''y''] [- 1]), 0, None)
   \<and> AddColumn ext0 ctx0 (starNode [col ''y''] [- 1]) (request [] ''z'') True False
       = (starNode [col ''y'', col ''z''] [- 1],
          DerivedOp (starNode [col ''y'', col ''z''] [- 1]), 0, None)
   \<and> length (Columns (starNode [col ''y'', col ''z''] [- 1])) = 2
   \<and> length (ColumnsOffset (starNode [col ''y'', col ''z''] [- 1])) = 1"
  by (simp add: eval_defs)

text \<open>
  A second request for an equivalent column, when the equivalence test of the
  context is symmetric and transitive: the call succeeds, leaves the node as it is
  and returns the position in \<open>Columns\<close> of the first equivalent column.
\<close>

lemma AddColumn_records:
  assumes "Expr_of e = ColNameExpr c"
    and "AddColumn ext ctx d e r g = (d1, op, k, None)"
  shows "(\<exists>n. firstIndex (sameColumn ctx c) (Columns d) = Some n \<and> d1 = d \<and> k = int n)
       \<or> (firstIndex (sameColumn ctx c) (Columns d) = None \<and> Columns d1 = Columns d @ [c])"
proof (cases "firstIndex (sameColumn ctx c) (Columns d)")
  case (Some n)
  with assms show ?thesis by (simp add: AddColumn_reused)
next
  case None
  obtain i err where f: "findOutputColumn ext d c = (i, err)"
    by (cases "findOutputColumn ext d c")
  with assms None have "err = None"
    by (cases err) (simp_all add: AddColumn_unresolved)
  with f None assms AddColumn_resolved_ok(1) [of e c ctx d ext i r g d1 op k]
  show ?thesis by (simp add: canReuseColumn_eq)
qed

lemma AddColumn_second_request:
  assumes sym: "\<And>a b. sameColumn ctx a b \<Longrightarrow> sameColumn ctx b a"
    and trans: "\<And>a b c. sameColumn ctx a b \<Longrightarrow> sameColumn ctx b c \<Longrightarrow> sameColumn ctx a c"
    and e: "Expr_of e = ColNameExpr c" and e': "Expr_of e' = ColNameExpr c'"
    and same: "sameColumn ctx c' c"
    and first: "AddColumn ext ctx d e r g = (d1, op, k, None)"
  shows "\<exists>n. firstIndex (sameColumn ctx c') (Columns d1) = Some n
           \<and> AddColumn ext ctx d1 e' r' g' = (d1, DerivedOp d1, int n, None)"
proof -
  have "\<exists>x\<in>set (Columns d1). sameColumn ctx c x"
    using AddColumn_records [OF e first]
  proof (elim disjE exE conjE)
    fix n
    assume "firstIndex (sameColumn ctx c) (Columns d) = Some n" "d1 = d"
    with firstIndex_Some [of "sameColumn ctx c" "Columns d" n] show ?thesis
      by (auto intro: nth_mem)
  next
    assume "Columns d1 = Columns d @ [c]"
    moreover have "sameColumn ctx c c" using sym [OF same] same by (rule trans)
    ultimately show ?thesis by simp
  qed
  then have "\<exists>x\<in>set (Columns d1). sameColumn ctx c' x"
    using same by (blast intro: trans)
  then obtain n where "firstIndex (sameColumn ctx c') (Columns d1) = Some n"
    using firstIndex_None [of "sameColumn ctx c'" "Columns d1"] by (cases "firstIndex (sameColumn ctx c') (Columns d1)") auto
  then show ?thesis
    using AddColumn_reused [OF e'] by blast
qed

text \<open>
  Claim C1 at a concrete node: over \<^verbatim>\<open>SELECT *\<close>, the request \<^verbatim>\<open>y\<close> on the
  empty node records \<^verbatim>\<open>y\<close> at \<open>-1\<close>; the request \<^verbatim>\<open>z\<close> then succeeds with
  offset 0 (the position of \<open>-1\<close> in \<open>ColumnsOffset\<close>, returned by
  \<open>addToIntSlice\<close>); the same request again succeeds, leaves the node as it is,
  and returns offset 1 (the position of \<^verbatim>\<open>z\<close> in \<open>Columns\<close>, returned by
  \<open>canReuseColumn\<close>).
\<close>

theorem AddColumn_repeated_request:
  "AddColumn ext0 ctx0 (starNode [] []) (request [] ''y'') True False
       = (starNode [col ''y''] [- 1], DerivedOp (starNode [col ''y''] [- 1]), 0, None)
   \<and> AddColumn ext0 ctx0 (starNode [col ''y''] [- 1]) (request [] ''z'') True False
       = (starNode [col ''y'', col ''z''] [- 1],
          DerivedOp (starNode [col ''y'', col ''z''] [- 1]), 0, None)
   \<and> AddColumn ext0 ctx0 (starNode [col ''y'', col ''z''] [- 1]) (request [] ''z'') True False
       = (starNode [col ''y'', col ''z''] [- 1],
          DerivedOp (starNode [col ''y'', col ''z''] [- 1]), 1, None)"
  by (simp add: eval_defs)

lemma AddPredicate_slices:
  "Columns (fst (AddPredicate ext ctx d p)) = Columns d
   \<and> ColumnsOffset (fst (AddPredicate ext ctx d p)) = ColumnsOffset d"
  by (simp add: AddPredicate_def set_defs Let_def split: prod.splits option.splits)

lemma Clone_slices:
  "Clone d inputs = Some c \<Longrightarrow> Columns c = Columns d \<and> ColumnsOffset c = ColumnsOffset d"
  by (auto simp: Clone_def slices_Clone_def split: list.splits)

lemma SetInputs_slices:
  "SetInputs d inputs = Some d' \<Longrightarrow> Columns d' = Columns d \<and> ColumnsOffset d' = ColumnsOffset d"
  by (auto simp: SetInputs_def set_defs split: list.splits)

lemma getQP_slices:
  "getQP ext ctx d = Some res \<Longrightarrow>
   Columns (fst res) = Columns d \<and> ColumnsOffset (fst res) = ColumnsOffset d"
  by (auto simp: getQP_def set_defs split: if_splits SelectStatement.splits prod.splits option.splits)

text \<open>
  Claim C2, amended: \<open>len(ColumnsOffset) \<le> len(Columns)\<close> is preserved by every
  call of \<open>AddColumn\<close>, successful or not, and by \<open>AddPredicate\<close>, \<open>Clone\<close>,
  \<open>SetInputs\<close>, \<open>setQP\<close> and \<open>getQP\<close>.  Two slices of equal length stay of
  equal length across \<open>AddColumn\<close> except in one case: the call resolves a column
  not yet recorded to an index that \<open>ColumnsOffset\<close> holds already; then
  \<open>Columns\<close> grows by that column and \<open>ColumnsOffset\<close> stays as it is.  The
  remaining methods of the node assign to none of its fields.
\<close>

theorem slice_lengths_preserved:
  assumes "length (ColumnsOffset d) \<le> length (Columns d)"
  shows "length (ColumnsOffset (fst (AddColumn ext ctx d expr r g)))
           \<le> length (Columns (fst (AddColumn ext ctx d expr r g)))
       \<and> (length (ColumnsOffset d) = length (Columns d) \<longrightarrow>
            length (ColumnsOffset (fst (AddColumn ext ctx d expr r g)))
              = length (Columns (fst (AddColumn ext ctx d expr r g)))
            \<or> (\<exists>c i. Expr_of expr = ColNameExpr c
                  \<and> \<not> snd (canReuseColumn ctx (Columns d) (ColNameExpr c) ColNameExpr)
                  \<and> findOutputColumn ext d c = (i, None) \<and> i \<in> set (ColumnsOffset d)
                  \<and> Columns (fst (AddColumn ext ctx d expr r g)) = Columns d @ [c]
                  \<and> ColumnsOffset (fst (AddColumn ext ctx d expr r g)) = ColumnsOffset d))
       \<and> length (ColumnsOffset (fst (AddPredicate ext ctx d p)))
           \<le> length (Columns (fst (AddPredicate ext ctx d p)))
       \<and> (\<forall>c. Clone d inputs = Some c \<longrightarrow> length (ColumnsOffset c) \<le> length (Columns c))
       \<and> (\<forall>d'. SetInputs d inputs = Some d' \<longrightarrow> length (ColumnsOffset d') \<le> length (Columns d'))
       \<and> length (ColumnsOffset (setQP d qp)) \<le> length (Columns (setQP d qp))
       \<and> (\<forall>res. getQP ext ctx d = Some res \<longrightarrow>
             length (ColumnsOffset (fst res)) \<le> length (Columns (fst res)))"
proof (intro conjI)
  show "length (ColumnsOffset (fst (AddColumn ext ctx d expr r g)))
           \<le> length (Columns (fst (AddColumn ext ctx d expr r g)))"
    using assms by (rule AddColumn_lengths)
  show "length (ColumnsOffset d) = length (Columns d) \<longrightarrow>
            length (ColumnsOffset (fst (AddColumn ext ctx d expr r g)))
              = length (Columns (fst (AddColumn ext ctx d expr r g)))
            \<or> (\<exists>c i. Expr_of expr = ColNameExpr c
                  \<and> \<not> snd (canReuseColumn ctx (Columns d) (ColNameExpr c) ColNameExpr)
                  \<and> findOutputColumn ext d c = (i, None) \<and> i \<in> set (ColumnsOffset d)
                  \<and> Columns (fst (AddColumn ext ctx d expr r g)) = Columns d @ [c]
                  \<and> ColumnsOffset (fst (AddColumn ext ctx d expr r g)) = ColumnsOffset d)"
  proof
    assume eq: "length (ColumnsOffset d) = length (Columns d)"
    from AddColumn_slices [of ext ctx d expr r g]
    show "length (ColumnsOffset (fst (AddColumn ext ctx d expr r g)))
              = length (Columns (fst (AddColumn ext ctx d expr r g)))
            \<or> (\<exists>c i. Expr_of expr = ColNameExpr c
                  \<and> \<not> snd (canReuseColumn ctx (Columns d) (ColNameExpr c) ColNameExpr)
                  \<and> findOutputColumn ext d c = (i, None) \<and> i \<in> set (ColumnsOffset d)
                  \<and> Columns (fst (AddColumn ext ctx d expr r g)) = Columns d @ [c]
                  \<and> ColumnsOffset (fst (AddColumn ext ctx d expr r g)) = ColumnsOffset d)"
    proof (elim disjE exE conjE)
      assume "Columns (fst (AddColumn ext ctx d expr r g)) = Columns d"
        "ColumnsOffset (fst (AddColumn ext ctx d expr r g)) = ColumnsOffset d"
      with eq show ?thesis by simp
    next
      fix c i
      assume h: "Expr_of expr = ColNameExpr c"
        "firstIndex (sameColumn ctx c) (Columns d) = None"
        "findOutputColumn ext d c = (i, None)"
        "Columns (fst (AddColumn ext ctx d expr r g)) = Columns d @ [c]"
        "ColumnsOffset (fst (AddColumn ext ctx d expr r g)) = fst (addToIntSlice (ColumnsOffset d) i)"
      obtain offs pos where s: "addToIntSlice (ColumnsOffset d) i = (offs, pos)"
        by (cases "addToIntSlice (ColumnsOffset d) i")
      show ?thesis
      proof (cases "i \<in> set (ColumnsOffset d)")
        case True
        with addToIntSlice_props(8) [OF s] s h show ?thesis
          by (auto simp: canReuseColumn_eq)
      next
        case False
        with addToIntSlice_props(7) [OF s] s h eq show ?thesis
          by simp
      qed
    qed
  qed
  show "length (ColumnsOffset (fst (AddPredicate ext ctx d p)))
           \<le> length (Columns (fst (AddPredicate ext ctx d p)))"
    using assms by (simp add: AddPredicate_slices)
  show "\<forall>c. Clone d inputs = Some c \<longrightarrow> length (ColumnsOffset c) \<le> length (Columns c)"
    using assms by (auto dest: Clone_slices)
  show "\<forall>d'. SetInputs d inputs = Some d' \<longrightarrow> length (ColumnsOffset d') \<le> length (Columns d')"
    using assms by (auto dest: SetInputs_slices)
  show "length (ColumnsOffset (setQP d qp)) \<le> length (Columns (setQP d qp))"
    using assms by (simp add: setQP_def set_defs)
  show "\<forall>res. getQP ext ctx d = Some res \<longrightarrow>
             length (ColumnsOffset (fst res)) \<le> length (Columns (fst res))"
    using assms by (auto dest: getQP_slices)
qed

text \<open>
  Over \<^verbatim>\<open>SELECT *\<close>: the empty node satisfies the inequality and the request
  \<^verbatim>\<open>y\<close> keeps it; with \<^verbatim>\<open>y\<close> recorded at \<open>-1\<close>, the request \<^verbatim>\<open>z\<close> keeps it
  too, and so does a predicate.
\<close>

theorem slice_lengths_preserved_witness:
  "length (ColumnsOffset (starNode [] [])) \<le> length (Columns (starNode [] []))
   \<and> length (ColumnsOffset (fst (AddColumn ext0 ctx0 (starNode [] []) (request [] ''y'') True False)))
       \<le> length (Columns (fst (AddColumn ext0 ctx0 (starNode [] []) (request [] ''y'') True False)))
   \<and> length (ColumnsOffset (starNode [col ''y''] [- 1])) \<le> length (Columns (starNode [col ''y''] [- 1]))
   \<and> length (ColumnsOffset
         (fst (AddColumn ext0 ctx0 (starNode [col ''y''] [- 1]) (request [] ''z'') True False)))
       \<le> length (Columns
         (fst (AddColumn ext0 ctx0 (starNode [col ''y''] [- 1]) (request [] ''z'') True False)))
   \<and> length (ColumnsOffset
         (fst (AddPredicate ext0 ctx0 (starNode [col ''y''] [- 1]) maxPred)))
       \<le> length (Columns
         (fst (AddPredicate ext0 ctx0 (starNode [col ''y''] [- 1]) maxPred)))"
  using slice_lengths_preserved [of "starNode [col ''y''] [- 1]" ext0 ctx0
      "request [] ''z''" True False maxPred "[NilOp]" None]
    slice_lengths_preserved [of "starNode [] []" ext0 ctx0
      "request [] ''y''" True False maxPred "[NilOp]" None]
  by (simp add: starNode_def)

subsection \<open>Ordering and the cached query projection\<close>

text \<open>
  Claim C8: \<open>GetOrdering\<close> returns an error exactly when \<open>QP\<close> is nil; the
  error is \<^verbatim>\<open>VT13001\<close>, of the internal kind and so neither of the two
  user-facing errors of this operator; when \<open>QP\<close> is not nil the result is its
  \<open>OrderExprs\<close> without error.  The node is the same after the call.
\<close>

theorem GetOrdering_error_iff:
  "(snd (snd (GetOrdering d)) \<noteq> None \<longleftrightarrow> QP d = None)
   \<and> (QP d = None \<longrightarrow>
        GetOrdering d = (d, [], Some (VT13001 ''QP should already be here'')))
   \<and> (\<forall>e. snd (snd (GetOrdering d)) = Some e \<longrightarrow>
          kind_of e = InternalInvariant \<and> kind_of e \<noteq> UnsupportedFeature
          \<and> kind_of e \<noteq> InvalidQuery)
   \<and> (\<forall>qp. QP d = Some qp \<longrightarrow> GetOrdering d = (d, OrderExprs qp, None))
   \<and> fst (GetOrdering d) = d"
  by (cases "QP d") (simp_all add: GetOrdering_def)

theorem GetOrdering_error_iff_witness:
  "GetOrdering (derived0 [StarExpr])
     = (derived0 [StarExpr], [], Some (VT13001 ''QP should already be here''))
   \<and> GetOrdering (set_QP (Some \<lparr>OrderExprs = [(), ()]\<rparr>) (derived0 [StarExpr]))
     = (set_QP (Some \<lparr>OrderExprs = [(), ()]\<rparr>) (derived0 [StarExpr]), [(), ()], None)"
  using GetOrdering_error_iff [of "derived0 [StarExpr]"]
    GetOrdering_error_iff [of "set_QP (Some \<lparr>OrderExprs = [(), ()]\<rparr>) (derived0 [StarExpr])"]
  by (simp add: derived0_def set_defs)

text \<open>
  Claim C9: the node returned by \<open>Clone\<close> has a nil \<open>QP\<close> whatever the
  \<open>QP\<close> of the original, so \<open>getQP\<close> on the clone does not answer from a
  cache: it asks \<open>CreateQPFromSelect\<close> for the projection of the query and stores
  the answer in the clone (or passes the error on, or panics on a query that is not a
  plain select).
\<close>

theorem Clone_drops_QP:
  "\<forall>c. Clone d inputs = Some c \<longrightarrow>
      QP c = None
      \<and> getQP ext ctx c =
          (case Query d of
             Select es \<Rightarrow>
               (case CreateQPFromSelect ext ctx (Select es) of
                  (qp, Some err) \<Rightarrow> Some (c, None, Some err)
                | (qp, None) \<Rightarrow> Some (set_QP qp c, qp, None))
           | UnionStmt l r \<Rightarrow> None)"
  by (auto simp: Clone_def getQP_def split: list.splits SelectStatement.splits)

text \<open>
  The original holds a projection with two order expressions; its clone holds none,
  and \<open>getQP\<close> on the clone stores the projection the sample collaborator
  computes, which has no order expression.
\<close>

theorem Clone_drops_QP_witness:
  "Clone (set_QP (Some \<lparr>OrderExprs = [(), ()]\<rparr>) (derived0 [StarExpr])) [NilOp]
     = Some (set_Source NilOp (derived0 [StarExpr]))
   \<and> QP (set_Source NilOp (derived0 [StarExpr])) = None
   \<and> getQP ext0 ctx0 (set_Source NilOp (derived0 [StarExpr]))
     = Some (set_QP (Some \<lparr>OrderExprs = []\<rparr>) (set_Source NilOp (derived0 [StarExpr])),
             Some \<lparr>OrderExprs = []\<rparr>, None)"
proof -
  have c: "Clone (set_QP (Some \<lparr>OrderExprs = [(), ()]\<rparr>) (derived0 [StarExpr])) [NilOp]
     = Some (set_Source NilOp (derived0 [StarExpr]))"
    by (simp add: Clone_def CloneColumns_def slices_Clone_def derived0_def set_defs)
  from Clone_drops_QP [of "set_QP (Some \<lparr>OrderExprs = [(), ()]\<rparr>) (derived0 [StarExpr])"
      "[NilOp]" ext0 ctx0] c
  show ?thesis
    by (simp add: derived0_def set_defs ext0_def)
qed

subsection \<open>Cloning and the backing arrays\<close>

lemma make_slice_props:
  assumes "make_slice extra z h xs = (h', s)"
  shows "elems h' s = xs" and "valid h' s" and "s = Slice (length h) 0 (length xs) (length xs + extra (length xs))"
    and "valid h t \<Longrightarrow> valid h' t" and "valid h t \<Longrightarrow> elems h' t = elems h t"
    and "valid h t \<Longrightarrow> apart s t" and "valid h t \<Longrightarrow> apart t s"
  using assms by (cases t; auto simp: make_slice_def nth_append)+

lemma store_slice_inplace:
  assumes "store_slice h s i x = Some h'"
  obtains a st n c where "s = Slice a st n c" "i < n" "h' = h[a := (h ! a)[st + i := x]]"
  using assms by (cases s) (auto simp: store_slice_def split: if_splits)

lemma inplace_valid:
  "valid h t \<Longrightarrow> valid (h[a := (h ! a)[k := x]]) t"
  by (cases t; cases "a < length h") (auto simp: nth_list_update)

lemma inplace_elems_other:
  "valid h t \<Longrightarrow> apart (Slice a st n c) t \<Longrightarrow> elems (h[a := ys]) t = elems h t"
  by (cases t) auto

lemma store_slice_props:
  assumes "store_slice h s i x = Some h'" and "valid h s"
  shows "valid h' s" and "elems h' s = (elems h s)[i := x]"
    and "valid h t \<Longrightarrow> valid h' t"
    and "valid h t \<Longrightarrow> apart s t \<Longrightarrow> elems h' t = elems h t"
proof -
  from assms(1) obtain a st n c where
    s: "s = Slice a st n c" "i < n" "h' = h[a := (h ! a)[st + i := x]]"
    by (rule store_slice_inplace)
  show "valid h' s" using assms(2) s(3) by (simp add: inplace_valid)
  show "valid h' t" if "valid h t" using that s(3) by (simp add: inplace_valid)
  show "elems h' t = elems h t" if "valid h t" "apart s t"
    using that s(1,3) by (simp add: inplace_elems_other)
  show "elems h' s = (elems h s)[i := x]"
    using assms(2) s by (simp add: drop_update_swap take_update_swap)
qed

lemma append_slice_nil:
  "append_slice extra z h NilSlice x = make_slice extra z h (elems h NilSlice @ [x])"
  by (simp add: append_slice_def)

lemma append_slice_full:
  "\<not> n < c \<Longrightarrow>
   append_slice extra z h (Slice a st n c) x = make_slice extra z h (elems h (Slice a st n c) @ [x])"
  by (simp add: append_slice_def)

lemma append_slice_room:
  "n < c \<Longrightarrow>
   append_slice extra z h (Slice a st n c) x =
     (h[a := (h ! a)[st + n := x]], Slice a st (Suc n) c)"
  by (simp add: append_slice_def)

lemma append_slice_cases:
  assumes "append_slice extra z h s x = (h', s')"
  obtains (fresh) "make_slice extra z h (elems h s @ [x]) = (h', s')"
  | (inplace) a st n c where "s = Slice a st n c" "n < c"
      "h' = h[a := (h ! a)[st + n := x]]" "s' = Slice a st (Suc n) c"
proof (cases s)
  case NilSlice
  with assms have "make_slice extra z h (elems h s @ [x]) = (h', s')"
    by (simp only: append_slice_nil)
  then show ?thesis by (rule fresh)
next
  case (Slice a st n c)
  show ?thesis
  proof (cases "n < c")
    case True
    with assms Slice have "h' = h[a := (h ! a)[st + n := x]]" "s' = Slice a st (Suc n) c"
      by (simp_all add: append_slice_room)
    with Slice True show ?thesis by (rule inplace)
  next
    case False
    with assms Slice have "make_slice extra z h (elems h s @ [x]) = (h', s')"
      by (simp add: append_slice_full del: elems.simps)
    then show ?thesis by (rule fresh)
  qed
qed

lemma append_slice_props:
  assumes "append_slice extra z h s x = (h', s')" and "valid h s"
  shows "valid h' s'" and "elems h' s' = elems h s @ [x]"
    and "valid h t \<Longrightarrow> valid h' t"
    and "valid h t \<Longrightarrow> apart s t \<Longrightarrow> elems h' t = elems h t"
    and "valid h t \<Longrightarrow> apart s t \<Longrightarrow> apart s' t"
    and "valid h t \<Longrightarrow> apart t s \<Longrightarrow> apart t s'"
proof -
  show "valid h' s'"
    using assms(1)
  proof (cases rule: append_slice_cases)
    case fresh
    then show ?thesis by (rule make_slice_props(2))
  next
    case (inplace a st n c)
    with assms(2) have "a < length h" "Suc n \<le> c" "st + c \<le> length (h ! a)"
      by simp_all
    then show ?thesis
      unfolding inplace(3,4) by simp
  qed
  show "elems h' s' = elems h s @ [x]"
    using assms(1)
  proof (cases rule: append_slice_cases)
    case fresh
    then show ?thesis by (rule make_slice_props(1))
  next
    case (inplace a st n c)
    with assms(2) have a: "a < length h" and l: "n < length (drop st (h ! a))"
      by auto
    have "drop st ((h ! a)[st + n := x]) = (drop st (h ! a))[n := x]"
      by (simp add: drop_update_swap)
    moreover have "take (Suc n) ((drop st (h ! a))[n := x]) = take n (drop st (h ! a)) @ [x]"
      using l by (simp add: take_Suc_conv_app_nth)
    ultimately show ?thesis
      using inplace a by simp
  qed
  show "valid h' t" if "valid h t"
    using assms(1)
  proof (cases rule: append_slice_cases)
    case fresh
    then show ?thesis using that by (rule make_slice_props(4))
  next
    case (inplace a st n c)
    with that show ?thesis by (simp add: inplace_valid)
  qed
  show "elems h' t = elems h t" if "valid h t" "apart s t"
    using assms(1)
  proof (cases rule: append_slice_cases)
    case fresh
    then show ?thesis using that(1) by (rule make_slice_props(5))
  next
    case (inplace a st n c)
    with that show ?thesis by (simp add: inplace_elems_other)
  qed
  show "apart s' t" if "valid h t" "apart s t"
    using assms(1)
  proof (cases rule: append_slice_cases)
    case fresh
    then show ?thesis using that(1) by (rule make_slice_props(6))
  next
    case (inplace a st n c)
    with that show ?thesis by (cases t) simp_all
  qed
  show "apart t s'" if "valid h t" "apart t s"
    using assms(1)
  proof (cases rule: append_slice_cases)
    case fresh
    then show ?thesis using that(1) by (rule make_slice_props(7))
  next
    case (inplace a st n c)
    with that show ?thesis by (cases t) simp_all
  qed
qed

lemma slices_Clone_mem_nil:
  "slices_Clone_mem extra z h NilSlice = (h, NilSlice)"
  by (simp add: slices_Clone_mem_def)

lemma slices_Clone_mem_make:
  "s \<noteq> NilSlice \<Longrightarrow> slices_Clone_mem extra z h s = make_slice extra z h (elems h s)"
  by (cases s) (simp_all add: slices_Clone_mem_def)

lemma apart_NilSlice: "apart NilSlice t" "apart t NilSlice"
  by (cases t; simp)+

lemma slices_Clone_mem_props:
  assumes "slices_Clone_mem extra z h s = (h', s')" and "valid h s"
  shows "elems h' s' = elems h s" and "valid h' s'"
    and "valid h t \<Longrightarrow> valid h' t" and "valid h t \<Longrightarrow> elems h' t = elems h t"
    and "valid h t \<Longrightarrow> apart t s'" and "valid h t \<Longrightarrow> apart s' t"
    and "(s' = NilSlice) = (s = NilSlice)"
proof -
  consider (nil) "s = NilSlice" "h' = h" "s' = NilSlice"
    | (copy) "s \<noteq> NilSlice" "make_slice extra z h (elems h s) = (h', s')"
    using assms(1) by (cases "s = NilSlice") (simp_all add: slices_Clone_mem_nil slices_Clone_mem_make)
  note c = this
  show "elems h' s' = elems h s"
    using c by cases (simp_all add: make_slice_props(1))
  show "valid h' s'"
    using c by cases (simp_all add: make_slice_props(2))
  show "valid h' t" if "valid h t"
    using c that by cases (simp_all add: make_slice_props(4))
  show "elems h' t = elems h t" if "valid h t"
    using c that by cases (simp_all add: make_slice_props(5))
  show "apart t s'" if "valid h t"
    using c that by cases (simp_all add: make_slice_props(7) apart_NilSlice)
  show "apart s' t" if "valid h t"
    using c that by cases (simp_all add: make_slice_props(6) apart_NilSlice)
  show "(s' = NilSlice) = (s = NilSlice)"
    using c by cases (auto dest: make_slice_props(3))
qed

lemmas mem_defs = node_of_def valid_node_def separate_def set_mColumnAliases_def
  set_mColumns_def set_mColumnsOffset_def

lemma mutate_other:
  assumes "mutate extra m a mu = Some (m', a')"
    and "valid_node m a" and "valid_node m b" and "separate a b"
  shows "node_of m' b = node_of m b" and "valid_node m' a'" and "valid_node m' b"
    and "separate a' b"
proof -
  have "node_of m' b = node_of m b \<and> valid_node m' a' \<and> valid_node m' b \<and> separate a' b"
  proof (cases mu)
    case (AppendColumn c)
    with assms(1) obtain h s where
      *: "append_slice extra None (colptrs m) (mColumns a) c = (h, s)"
        "m' = m\<lparr>colptrs := h\<rparr>" "a' = set_mColumns s a"
      by (auto split: prod.splits)
    from append_slice_props [OF *(1)] assms(2-4) show ?thesis
      unfolding *(2,3) by (simp add: mem_defs)
  next
    case (StoreColumn i c)
    with assms(1) obtain h where
      *: "store_slice (colptrs m) (mColumns a) i c = Some h" "m' = m\<lparr>colptrs := h\<rparr>" "a' = a"
      by (auto split: option.splits)
    from store_slice_props [OF *(1)] assms(2-4) show ?thesis
      unfolding *(2,3) by (simp add: mem_defs)
  next
    case (AppendOffset v)
    with assms(1) obtain h s where
      *: "append_slice extra 0 (ints m) (mColumnsOffset a) v = (h, s)"
        "m' = m\<lparr>ints := h\<rparr>" "a' = set_mColumnsOffset s a"
      by (auto split: prod.splits)
    from append_slice_props [OF *(1)] assms(2-4) show ?thesis
      unfolding *(2,3) by (simp add: mem_defs)
  next
    case (StoreOffset i v)
    with assms(1) obtain h where
      *: "store_slice (ints m) (mColumnsOffset a) i v = Some h" "m' = m\<lparr>ints := h\<rparr>" "a' = a"
      by (auto split: option.splits)
    from store_slice_props [OF *(1)] assms(2-4) show ?thesis
      unfolding *(2,3) by (simp add: mem_defs)
  next
    case (AppendAlias x)
    with assms(1) obtain h s where
      *: "append_slice extra (IdentifierCI []) (idents m) (mColumnAliases a) x = (h, s)"
        "m' = m\<lparr>idents := h\<rparr>" "a' = set_mColumnAliases s a"
      by (auto split: prod.splits)
    from append_slice_props [OF *(1)] assms(2-4) show ?thesis
      unfolding *(2,3) by (simp add: mem_defs)
  next
    case (StoreAlias i x)
    with assms(1) obtain h where
      *: "store_slice (idents m) (mColumnAliases a) i x = Some h" "m' = m\<lparr>idents := h\<rparr>" "a' = a"
      by (auto split: option.splits)
    from store_slice_props [OF *(1)] assms(2-4) show ?thesis
      unfolding *(2,3) by (simp add: mem_defs)
  qed
  then show "node_of m' b = node_of m b" "valid_node m' a'" "valid_node m' b" "separate a' b"
    by simp_all
qed

lemma apart_sym: "apart s t = apart t s"
  by (cases s; cases t) auto

lemma separate_sym: "separate a b = separate b a"
  by (auto simp: separate_def apart_sym)

lemma mutate_all_other:
  assumes "mutate_all extra m a mus = Some (m', a')"
    and "valid_node m a" and "valid_node m b" and "separate a b"
  shows "node_of m' b = node_of m b \<and> valid_node m' a' \<and> valid_node m' b \<and> separate a' b"
  using assms
proof (induction mus arbitrary: m a)
  case Nil
  then show ?case by simp
next
  case (Cons mu mus)
  from Cons.prems(1) obtain m1 a1 where
    1: "mutate extra m a mu = Some (m1, a1)" and 2: "mutate_all extra m1 a1 mus = Some (m', a')"
    by (auto split: option.splits)
  note step = mutate_other [OF 1 Cons.prems(2-4)]
  from Cons.IH [OF 2 step(2) step(3) step(4)] step(1) show ?case by simp
qed

lemma Clone_mem_parts:
  assumes "Clone_mem extra m d inputs = Some (m', c)"
  obtains s rest where "inputs = s # rest"
    "slices_Clone_mem extra (IdentifierCI []) (idents m) (mColumnAliases d)
       = (idents m', mColumnAliases c)"
    "slices_Clone_mem extra None (colptrs m) (mColumns d) = (colptrs m', mColumns c)"
    "slices_Clone_mem extra 0 (ints m) (mColumnsOffset d) = (ints m', mColumnsOffset c)"
    "mSource c = s" "mTableId c = mTableId d" "mQP c = None" "mQuery c = mQuery d"
    "mAlias c = mAlias d" "objects m' = objects m"
proof (cases inputs)
  case Nil
  with assms show ?thesis by (simp add: Clone_mem_def)
next
  case (Cons s rest)
  obtain ih ca where 1: "slices_Clone_mem extra (IdentifierCI []) (idents m) (mColumnAliases d) = (ih, ca)"
    by (cases "slices_Clone_mem extra (IdentifierCI []) (idents m) (mColumnAliases d)")
  obtain ch cs where 2: "slices_Clone_mem extra None (colptrs m) (mColumns d) = (ch, cs)"
    by (cases "slices_Clone_mem extra None (colptrs m) (mColumns d)")
  obtain oh os where 3: "slices_Clone_mem extra 0 (ints m) (mColumnsOffset d) = (oh, os)"
    by (cases "slices_Clone_mem extra 0 (ints m) (mColumnsOffset d)")
  from assms Cons 1 2 3 have
    "m' = \<lparr>idents = ih, colptrs = ch, objects = objects m, ints = oh\<rparr>"
    "c = Derived_mem s (mTableId d) None (mQuery d) (mAlias d) ca cs os"
    by (simp_all add: Clone_mem_def CloneColumns_mem_def)
  with Cons 1 2 3 show ?thesis
    by (intro that [of s rest]) simp_all
qed

lemma Clone_mem_props:
  assumes "valid_node m d" and "Clone_mem extra m d inputs = Some (m', c)"
  shows "inputs \<noteq> []" and "mSource c = inputs ! 0"
    and "mQuery c = mQuery d" and "mAlias c = mAlias d" and "mTableId c = mTableId d"
    and "Clone (node_of m d) inputs = Some (node_of m' c)"
    and "node_of m' d = node_of m d"
    and "valid_node m' d" and "valid_node m' c" and "separate d c"
    and "objects m' = objects m"
    and "elems (colptrs m') (mColumns c) = elems (colptrs m) (mColumns d)"
    and "elems (colptrs m') (mColumns d) = elems (colptrs m) (mColumns d)"
proof -
  from assms(2) obtain s rest where p: "inputs = s # rest"
    "slices_Clone_mem extra (IdentifierCI []) (idents m) (mColumnAliases d)
       = (idents m', mColumnAliases c)"
    "slices_Clone_mem extra None (colptrs m) (mColumns d) = (colptrs m', mColumns c)"
    "slices_Clone_mem extra 0 (ints m) (mColumnsOffset d) = (ints m', mColumnsOffset c)"
    "mSource c = s" "mTableId c = mTableId d" "mQP c = None" "mQuery c = mQuery d"
    "mAlias c = mAlias d" "objects m' = objects m"
    by (rule Clone_mem_parts)
  from assms(1) have v: "valid (idents m) (mColumnAliases d)" "valid (colptrs m) (mColumns d)"
    "valid (ints m) (mColumnsOffset d)"
    by (simp_all add: valid_node_def)
  note a = slices_Clone_mem_props [OF p(2) v(1)]
  note b = slices_Clone_mem_props [OF p(3) v(2)]
  note o = slices_Clone_mem_props [OF p(4) v(3)]
  show "inputs \<noteq> []" "mSource c = inputs ! 0" using p(1,5) by simp_all
  show "mQuery c = mQuery d" "mAlias c = mAlias d" "mTableId c = mTableId d"
    using p by simp_all
  show "Clone (node_of m d) inputs = Some (node_of m' c)"
    using p a(1) b(1) o(1)
    by (simp add: Clone_def node_of_def CloneColumns_def slices_Clone_def)
  show "node_of m' d = node_of m d"
    using a(4) b(4) o(4) v p(10) by (simp add: node_of_def)
  show "objects m' = objects m" by (rule p(10))
  show "elems (colptrs m') (mColumns c) = elems (colptrs m) (mColumns d)" by (rule b(1))
  show "elems (colptrs m') (mColumns d) = elems (colptrs m) (mColumns d)"
    using b(4) v(2) by simp
  show "valid_node m' d"
    using a(3) b(3) o(3) v by (simp add: valid_node_def)
  show "valid_node m' c"
    using a(2) b(2) o(2) by (simp add: valid_node_def)
  show "separate d c"
    using a(5) b(5) o(5) v by (simp add: separate_def)
qed

lemma elems_length: "valid h s \<Longrightarrow> length (elems h s) = slice_len s"
  by (cases s) auto

text \<open>
  A write through an element of \<open>Columns\<close> reaches every node that holds the same
  pointer at that position, and changes no slice.
\<close>

lemma write_through_shared:
  assumes "write_through m c i v = Some m2"
    and "valid (colptrs m) (mColumns c)"
    and "elems (colptrs m) (mColumns d) = elems (colptrs m) (mColumns c)"
  shows "i < length (Columns (node_of m d))"
    and "Columns (node_of m2 d) ! i = v"
    and "ColumnsOffset (node_of m2 d) = ColumnsOffset (node_of m d)"
    and "ColumnAliases (node_of m2 d) = ColumnAliases (node_of m d)"
proof -
  from assms(1) obtain a where w: "i < slice_len (mColumns c)"
    "elems (colptrs m) (mColumns c) ! i = Some a" "a < length (objects m)"
    "m2 = m\<lparr>objects := (objects m)[a := v]\<rparr>"
    by (auto simp: write_through_def split: if_splits option.splits)
  from w(1) assms(2) have l: "i < length (elems (colptrs m) (mColumns c))"
    by (simp add: elems_length)
  with assms(3) show "i < length (Columns (node_of m d))"
    by (simp add: node_of_def)
  from l assms(3) w(2,3) show "Columns (node_of m2 d) ! i = v"
    unfolding w(4) by (simp add: node_of_def deref_def)
  show "ColumnsOffset (node_of m2 d) = ColumnsOffset (node_of m d)"
    "ColumnAliases (node_of m2 d) = ColumnAliases (node_of m d)"
    unfolding w(4) by (simp_all add: node_of_def)
qed

text \<open>
  Claim C7, as stated: the \<^verbatim>\<open>Columns\<close> of the clone is a deep copy, and no
  mutation on it changes what the original reads.  On the sample memory the clone's
  \<^verbatim>\<open>Columns\<close> lies on an array of its own, but its first element is the pointer
  the original holds; after a write of the column \<^verbatim>\<open>w\<close> through that element of
  the clone, the original reads \<^verbatim>\<open>w\<close> where it read \<^verbatim>\<open>y\<close>.
\<close>

theorem Clone_mem_deep_counterexample:
  "valid_node mem0 node0
   \<and> Clone_mem no_spare mem0 node0 [NilOp] = Some (mem1, node1)
   \<and> Columns (node_of mem1 node0) = [col ''y'']
   \<and> write_through mem1 node1 0 (col ''w'') = Some mem3
   \<and> Columns (node_of mem3 node0) = [col ''w'']"
  by (simp add: valid_node_def Clone_mem_def CloneColumns_mem_def slices_Clone_mem_def
        make_slice_def no_spare_def write_through_def node_of_def deref_def
        mem0_def node0_def mem1_def node1_def mem3_def col_def)

text \<open>
  Claim C7, amended: \<open>Clone\<close> of a node whose slices are valid returns a node
  that takes its child from \<^verbatim>\<open>inputs[0]\<close>, carries \<^verbatim>\<open>Query\<close>, \<^verbatim>\<open>Alias\<close> and
  \<^verbatim>\<open>TableId\<close> over as they are, and reads in \<^verbatim>\<open>ColumnAliases\<close>, \<^verbatim>\<open>Columns\<close>
  and \<^verbatim>\<open>ColumnsOffset\<close> what the original reads (read out of the memory, the
  clone is \<open>Clone\<close> of the original as defined on the contents).  The original
  reads as before.  No slice of the clone lies on an array of a slice of the
  original, and so no sequence of appends and element assignments to the slices of
  one of the two nodes changes what the other node reads, and the two stay on
  different arrays.  The copy of \<^verbatim>\<open>Columns\<close> is shallow: no column node is
  copied, the clone holds the pointers the original holds, and a write through an
  element of the \<^verbatim>\<open>Columns\<close> of either node to the column node is read by both
  nodes at that position; it changes neither \<^verbatim>\<open>ColumnsOffset\<close> nor
  \<^verbatim>\<open>ColumnAliases\<close>.
\<close>

theorem Clone_mem_shallow:
  assumes "valid_node m d" and "Clone_mem extra m d inputs = Some (m', c)"
  shows "inputs \<noteq> [] \<and> mSource c = inputs ! 0
       \<and> mQuery c = mQuery d \<and> mAlias c = mAlias d \<and> mTableId c = mTableId d
       \<and> Clone (node_of m d) inputs = Some (node_of m' c)
       \<and> node_of m' d = node_of m d
       \<and> separate d c
       \<and> (\<forall>mus m2 c2. mutate_all extra2 m' c mus = Some (m2, c2) \<longrightarrow>
             node_of m2 d = node_of m d \<and> separate d c2)
       \<and> (\<forall>mus m2 d2. mutate_all extra2 m' d mus = Some (m2, d2) \<longrightarrow>
             node_of m2 c = node_of m' c \<and> separate d2 c)
       \<and> objects m' = objects m
       \<and> elems (colptrs m') (mColumns c) = elems (colptrs m) (mColumns d)
       \<and> (\<forall>i v m2. write_through m' c i v = Some m2 \<longrightarrow>
             i < length (Columns (node_of m d))
             \<and> Columns (node_of m2 d) ! i = v \<and> Columns (node_of m2 c) ! i = v
             \<and> ColumnsOffset (node_of m2 d) = ColumnsOffset (node_of m d)
             \<and> ColumnAliases (node_of m2 d) = ColumnAliases (node_of m d))
       \<and> (\<forall>i v m2. write_through m' d i v = Some m2 \<longrightarrow>
             i < length (Columns (node_of m' c))
             \<and> Columns (node_of m2 c) ! i = v \<and> Columns (node_of m2 d) ! i = v
             \<and> ColumnsOffset (node_of m2 c) = ColumnsOffset (node_of m' c)
             \<and> ColumnAliases (node_of m2 c) = ColumnAliases (node_of m' c))"
proof -
  note p = Clone_mem_props [OF assms]
  have vc: "valid (colptrs m') (mColumns c)" and vd: "valid (colptrs m') (mColumns d)"
    using p(8,9) by (simp_all add: valid_node_def)
  have same: "elems (colptrs m') (mColumns d) = elems (colptrs m') (mColumns c)"
    using p(12,13) by simp
  have 1: "node_of m2 d = node_of m d \<and> separate d c2"
    if "mutate_all extra2 m' c mus = Some (m2, c2)" for mus m2 c2
    using mutate_all_other [OF that p(9) p(8)] p(7,10) by (simp add: separate_sym)
  have 2: "node_of m2 c = node_of m' c \<and> separate d2 c"
    if "mutate_all extra2 m' d mus = Some (m2, d2)" for mus m2 d2
    using mutate_all_other [OF that p(8) p(9) p(10)] by simp
  have 3: "i < length (Columns (node_of m d))
             \<and> Columns (node_of m2 d) ! i = v \<and> Columns (node_of m2 c) ! i = v
             \<and> ColumnsOffset (node_of m2 d) = ColumnsOffset (node_of m d)
             \<and> ColumnAliases (node_of m2 d) = ColumnAliases (node_of m d)"
    if "write_through m' c i v = Some m2" for i v m2
    using write_through_shared [OF that vc same] write_through_shared(2) [OF that vc refl] p(7)
    by simp
  have 4: "i < length (Columns (node_of m' c))
             \<and> Columns (node_of m2 c) ! i = v \<and> Columns (node_of m2 d) ! i = v
             \<and> ColumnsOffset (node_of m2 c) = ColumnsOffset (node_of m' c)
             \<and> ColumnAliases (node_of m2 c) = ColumnAliases (node_of m' c)"
    if "write_through m' d i v = Some m2" for i v m2
    using write_through_shared [OF that vd same [symmetric]] write_through_shared(2) [OF that vd refl]
    by simp
  from p(1-7,10,11,12) 1 2 3 4 show ?thesis
    by blast
qed

text \<open>
  The append to the original's \<^verbatim>\<open>Columns\<close> is written in place, into the array
  the original had before \<open>Clone\<close>; the clone still reads the column \<^verbatim>\<open>y\<close>
  and the offset \<open>-1\<close>.
\<close>

theorem Clone_mem_shallow_witness:
  "valid_node mem0 node0
   \<and> Clone_mem no_spare mem0 node0 [NilOp] = Some (mem1, node1)
   \<and> mutate_all no_spare mem1 node0 [AppendColumn (Some 1), StoreOffset 0 5]
       = Some (mem2, set_mColumns (Slice 0 0 2 2) node0)
   \<and> Columns (node_of mem2 (set_mColumns (Slice 0 0 2 2) node0)) = [col ''y'', col ''z'']
   \<and> ColumnsOffset (node_of mem2 (set_mColumns (Slice 0 0 2 2) node0)) = [5]
   \<and> Columns (node_of mem2 node1) = [col ''y'']
   \<and> ColumnsOffset (node_of mem2 node1) = [- 1]"
proof -
  have v: "valid_node mem0 node0"
    by (simp add: valid_node_def mem0_def node0_def)
  have c: "Clone_mem no_spare mem0 node0 [NilOp] = Some (mem1, node1)"
    by (simp add: Clone_mem_def CloneColumns_mem_def slices_Clone_mem_def make_slice_def
          no_spare_def mem0_def node0_def mem1_def node1_def)
  have m: "mutate_all no_spare mem1 node0 [AppendColumn (Some 1), StoreOffset 0 5]
       = Some (mem2, set_mColumns (Slice 0 0 2 2) node0)"
    by (simp add: append_slice_def store_slice_def set_mColumns_def mem1_def node0_def mem2_def)
  from Clone_mem_shallow [OF v c, of no_spare] m
  have "node_of mem2 node1 = node_of mem1 node1" by blast
  then have "Columns (node_of mem2 node1) = [col ''y'']"
    "ColumnsOffset (node_of mem2 node1) = [- 1]"
    by (simp_all add: node_of_def deref_def mem1_def node1_def)
  moreover have "Columns (node_of mem2 (set_mColumns (Slice 0 0 2 2) node0)) = [col ''y'', col ''z'']"
    "ColumnsOffset (node_of mem2 (set_mColumns (Slice 0 0 2 2) node0)) = [5]"
    by (simp_all add: node_of_def deref_def set_mColumns_def mem2_def node0_def)
  ultimately show ?thesis using v c m by simp
qed

end
